theory Spec2Isabelle
  imports Complex_Main
begin

section \<open>Data model of the Canvas renderer\<close>

text \<open>
  The renderer is the TypeScript class \<open>Canvas\<close> (a subclass of \<open>Renderer\<close>). A JavaScript
  number is modelled by the real it denotes; tile ids are integers and map indices are
  naturals, as the map produces them. The engine rounds products and quotients to doubles,
  so the \<open>*\<close> and \<open>/\<close> of the source are parameters of the model (\<open>num_times\<close> and
  \<open>num_divide\<close> below) of which nothing is assumed. Sums and differences are taken on
  integers, or add a cell's whole-number coordinates, and are exact. \<open>NaN\<close> is modelled
  where a tile id that is not a number enters arithmetic; division by a zero tile size or
  map width is left to \<open>num_divide\<close>. A flip list holds flips only, as \<open>getFlipped\<close> builds it.
\<close>

datatype TileFlip = Horizontal | Vertical | Diagonal

text \<open>
  A visible tile is either a plain tile id or a composite record with a tile id and the
  three flip flags (an absent flag reads as false).
\<close>

datatype ClientTile =
  Plain int
| Transformed int bool bool bool

text \<open>
  The values that can stand where the source declares a tile id of type \<open>number\<close>. The
  callback of \<open>draw\<close> casts its tile to a number without converting it, so a
  composite record that yields no flip goes on as the tile id (\<open>Obj\<close>, with the fields
  of the record). Adding 1 to such a value, as the animated path does with the id of its
  tile, is string concatenation: \<open>ObjText k\<close> is the string \<open>[object Object]\<close> followed by
  \<open>k + 1\<close> characters \<open>1\<close>.
\<close>

datatype TileId = Num int | Obj int bool bool bool | ObjText nat

text \<open>\<open>tileId < 0\<close>: a value that is not a number compares as \<open>NaN\<close>, which is false.\<close>

fun isNegative :: "TileId \<Rightarrow> bool" where
  "isNegative (Num n) = (n < 0)"
| "isNegative (Obj i h v d) = False"
| "isNegative (ObjText k) = False"

text \<open>\<open>id + 1\<close>.\<close>

fun plusOne :: "TileId \<Rightarrow> TileId" where
  "plusOne (Num n) = Num (n + 1)"
| "plusOne (Obj i h v d) = ObjText 0"
| "plusOne (ObjText k) = ObjText (Suc k)"

text \<open>\<open>tileId - firstGid\<close>; \<open>None\<close> is \<open>NaN\<close>.\<close>

fun minusGid :: "TileId \<Rightarrow> int \<Rightarrow> int option" where
  "minusGid (Num n) gid = Some (n - gid)"
| "minusGid (Obj i h v d) gid = None"
| "minusGid (ObjText k) gid = None"

text \<open>
  The property key under which a tile id indexes an object: the decimal form of a number,
  \<open>[object Object]\<close> for every record, the string itself for a string.
\<close>

datatype Key = NumKey int | ObjKey | ObjTextKey nat

fun propertyKey :: "TileId \<Rightarrow> Key" where
  "propertyKey (Num n) = NumKey n"
| "propertyKey (Obj i h v d) = ObjKey"
| "propertyKey (ObjText k) = ObjTextKey k"

text \<open>
  The cached source rectangle of a tile id. \<open>relativeTileId\<close>, \<open>x\<close> and \<open>y\<close> come from
  arithmetic on the tile id; \<open>None\<close> is \<open>NaN\<close>.
\<close>

record RendererTile =
  relativeTileId :: "int option"
  setWidth :: real
  tile_x :: "real option"
  tile_y :: "real option"
  tile_width :: real
  tile_height :: real

record RendererCell =
  cell_dx :: real
  cell_dy :: real
  cell_width :: real
  cell_height :: real

text \<open>
  A tileset is the image handed to the blit, together with the two fields the renderer
  reads from it.
\<close>

record Tileset =
  tileset_width :: real
  firstGid :: int

text \<open>
  Modelled from the spec: class \<open>Tile\<close> (module \<open>./tile\<close>) is not among the sources. The
  spec gives an Animated Tile an immutable identity (tile id, optional position index, flip
  flag, layer flag), its animation definition, and mutable playback state (current frame
  index, last-accessed time). The animation definition is opaque here (type \<open>'a\<close>).
  Field \<open>tid\<close> is the \<open>id\<close> of the source, which the draw path reads as the frame to
  show (\<open>animatedTile.id + 1\<close>); \<open>tindex\<close> is its \<open>index\<close>.
\<close>

record 'a Tile =
  tid :: TileId
  tindex :: int
  animationInfo :: 'a
  isFlipped :: bool
  isHighTile :: bool
  animationIndex :: nat
  lastAccessed :: real

text \<open>
  Modelled from the spec: the constructor of the missing class \<open>Tile\<close>, called as
  \<open>new Tile(tileId, index, animation, isFlipped, isHighTile)\<close>. The arguments become the
  identity fields in the order of the call. The initial playback state is immaterial to
  the renderer, which resets the frame index and stamps the access time right after
  creating a tile; it is taken as 0.
\<close>

definition new_Tile :: "TileId \<Rightarrow> int \<Rightarrow> 'a \<Rightarrow> bool \<Rightarrow> bool \<Rightarrow> 'a Tile" where
  "new_Tile tileId index animation flipped high =
     \<lparr>tid = tileId, tindex = index, animationInfo = animation, isFlipped = flipped,
      isHighTile = high, animationIndex = 0, lastAccessed = 0\<rparr>"

text \<open>
  Keys of \<open>animatedTiles\<close>: the tile id itself, or the string \<open>tileId-index\<close> for a
  dynamically animated tile. The two kinds of key never coincide.
\<close>

datatype Identifier = TileKey Key | TileIndexKey Key int

text \<open>
  The three drawing surfaces and the calls issued on them. \<open>ClearScreen\<close> and
  \<open>SetCameraView\<close> stand for the base-class methods of these names applied to a surface.
  The first two numbers of \<open>DrawImage\<close> are the source \<open>x\<close> and \<open>y\<close> (\<open>None\<close> is \<open>NaN\<close>).
\<close>

datatype Context = backContext | foreContext | overlayContext

datatype ContextCall =
  ClearScreen
| Save
| Restore
| FillStyle string
| FillRect real real real real
| SetCameraView
| Scale real real
| Rotate real
| Translate real real
| DrawImage Tileset "real option" "real option" real real real real real real

type_synonym CallLog = "(Context \<times> ContextCall) list"

text \<open>
  The renderer's own state: the animated-tile collection, the two geometry caches, and the
  log of calls made on the drawing surfaces so far.
\<close>

record 'a Canvas =
  animatedTiles :: "Identifier \<rightharpoonup> 'a Tile"
  tiles :: "Key \<rightharpoonup> RendererTile"
  cells :: "nat \<rightharpoonup> RendererCell"
  calls :: CallLog

text \<open>
  Everything the renderer reads from its collaborators (the map, the game, the base
  \<open>Renderer\<close>), none of which is among the sources: they are parameters of the model. The
  functions of the map receive whatever value the renderer passes as the tile id.
  \<open>visibleTiles\<close> lists the tiles and map indices that \<open>forEachVisibleTile\<close> hands to its
  callback, in that order. \<open>num_times\<close> and \<open>num_divide\<close> are the product and the quotient
  of two numbers as the engine computes them.
\<close>

record 'a Env =
  map_isHighTile :: "TileId \<Rightarrow> bool"
  map_isAnimatedTile :: "TileId \<Rightarrow> bool"
  map_isLightTile :: "TileId \<Rightarrow> bool"
  map_isFlipped :: "ClientTile \<Rightarrow> bool"
  map_getTilesetFromId :: "TileId \<Rightarrow> Tileset option"
  map_getTileAnimation :: "TileId \<Rightarrow> 'a"
  map_dynamicAnimatedTiles :: "nat \<Rightarrow> bool"
  map_width :: nat
  tileSize :: real
  actualTileSize :: real
  animateTiles :: bool
  overlays_hasOverlay :: bool
  game_time :: real
  hasRenderedFrame :: bool
  visibleTiles :: "(ClientTile \<times> nat) list"
  background_width :: real
  background_height :: real
  num_times :: "real \<Rightarrow> real \<Rightarrow> real"
  num_divide :: "real \<Rightarrow> real \<Rightarrow> real"

definition initial :: "'a Canvas" where
  "initial = \<lparr>animatedTiles = Map.empty, tiles = Map.empty, cells = Map.empty, calls = []\<rparr>"

section \<open>Operations\<close>

text \<open>
  JavaScript's remainder \<open>a % n\<close> on numbers: the quotient is truncated towards zero. The
  remainder of two doubles is a double, so no rounding is involved.
\<close>

definition js_rem :: "real \<Rightarrow> real \<Rightarrow> real" where
  "js_rem a n =
     a - n * of_int (if 0 \<le> a / n then \<lfloor>a / n\<rfloor> else \<lceil>a / n\<rceil>)"

text \<open>
  Modelled from the spec: \<open>getX\<close> is a method of the base class \<open>Renderer\<close>, which is not
  among the sources. The spec's end-to-end example gives the column of map index 12 on a
  map of width 10 as \<open>12 % 10\<close>, and \<open>drawTile\<close> obtains it as \<open>getX(index + 1, width)\<close>.
\<close>

definition getX :: "real \<Rightarrow> real \<Rightarrow> real" where
  "getX index width = js_rem (index - 1) width"

text \<open>JavaScript's \<open>a || b\<close> on numbers: \<open>b\<close> when \<open>a\<close> is zero.\<close>

definition js_or :: "real \<Rightarrow> real \<Rightarrow> real" where
  "js_or a b = (if a \<noteq> 0 then a else b)"

text \<open>
  \<open>resize\<close>: the base class recomputes sizes and scale, which live in the environment here
  and cannot reach the private caches; the override then clears the cell cache.
\<close>

definition resize :: "'a Canvas \<Rightarrow> 'a Canvas" where
  "resize c = c\<lparr>cells := Map.empty\<rparr>"

text \<open>
  The loop of \<open>drawImage\<close> over the flip array. The array is mutated while it is iterated
  (a diagonal pushes one more flip), and the bound \<open>flips.length\<close> is read afresh on every
  round, so the list is part of the loop state. \<open>Rotate (pi / 2)\<close> records the call
  \<open>context.rotate(Math.PI / 2)\<close>; nothing is computed from the angle.
\<close>

function flip_loop ::
  "Context \<Rightarrow> RendererCell \<Rightarrow> real \<Rightarrow> nat \<Rightarrow> TileFlip list \<Rightarrow> real \<Rightarrow> real \<Rightarrow> CallLog
   \<Rightarrow> TileFlip list \<times> real \<times> real \<times> CallLog" where
  "flip_loop context cell tempX index flips dx dy cs =
     (if index < length flips then
        (case flips ! index of
           Horizontal \<Rightarrow>
             flip_loop context cell tempX (Suc index) flips (- dx - cell_width cell) dy
               (cs @ [(context, Scale (- 1) 1)])
         | Vertical \<Rightarrow>
             flip_loop context cell tempX (Suc index) flips dx (- dy - cell_height cell)
               (cs @ [(context, Scale 1 (- 1))])
         | Diagonal \<Rightarrow>
             flip_loop context cell tempX (Suc index)
               (flips @ [if Suc index < length flips \<and> flips ! Suc index = Horizontal
                         then Horizontal else Vertical])
               dy (- tempX)
               (cs @ [(context, Rotate (pi / 2)), (context, Translate 0 (- cell_height cell))]))
      else (flips, dx, dy, cs))"
  by pat_completeness auto
termination
proof (relation "measure (\<lambda>(context, cell, tempX, index, flips, dx, dy, cs).
    (length flips - index) + count_list (drop index flips) Diagonal)", goal_cases)
  case 1
  show ?case by simp
next
  case (2 ctx cell tempX index flips dx dy cs)
  then have "drop index flips = Horizontal # drop (Suc index) flips"
    using Cons_nth_drop_Suc [of index flips] by simp
  with 2 show ?case by auto
next
  case (3 ctx cell tempX index flips dx dy cs)
  then have "drop index flips = Vertical # drop (Suc index) flips"
    using Cons_nth_drop_Suc [of index flips] by simp
  with 3 show ?case by auto
next
  case (4 ctx cell tempX index flips dx dy cs)
  then have "drop index flips = Diagonal # drop (Suc index) flips"
    using Cons_nth_drop_Suc [of index flips] by simp
  with 4 show ?case by auto
qed

declare flip_loop.simps [simp del]

text \<open>
  \<open>drawImage\<close>. The source rectangle is passed on as the tile holds it; its \<open>x\<close> and \<open>y\<close>
  may be \<open>NaN\<close>.
\<close>

definition drawImage ::
  "Context \<Rightarrow> Tileset \<Rightarrow> RendererTile \<Rightarrow> RendererCell \<Rightarrow> TileFlip list \<Rightarrow> 'a Canvas \<Rightarrow> 'a Canvas"
  where
  "drawImage context img tile cell flips c =
     (case (if 0 < length flips
            then flip_loop context cell (cell_dx cell) 0 flips (cell_dx cell) (cell_dy cell)
                   (calls c @ [(context, Save)])
            else (flips, 0, 0, calls c)) of
        (flips', dx, dy, cs) \<Rightarrow>
          c\<lparr>calls :=
              cs @ [(context, DrawImage img (tile_x tile) (tile_y tile) (tile_width tile)
                       (tile_height tile) (js_or dx (cell_dx cell)) (js_or dy (cell_dy cell))
                       (cell_width cell) (cell_height cell))]
                 @ (if 0 < length flips then [(context, Restore)] else [])\<rparr>)"

text \<open>
  The two geometries that \<open>drawTile\<close> computes on a cache miss: the source rectangle of a
  tile id within its tileset, and the destination rectangle of a map index. For a tile id
  that is not a number the relative id is \<open>NaN\<close>, and so are \<open>x\<close> and \<open>y\<close>.
\<close>

definition tileGeometry :: "'a Env \<Rightarrow> Tileset \<Rightarrow> TileId \<Rightarrow> RendererTile" where
  "tileGeometry env tileset tileId =
     (let setWidth = num_divide env (tileset_width tileset) (tileSize env);
          relativeTileId = minusGid tileId (firstGid tileset)
      in \<lparr>relativeTileId = relativeTileId,
          setWidth = setWidth,
          tile_x = map_option
                     (\<lambda>r. num_times env (getX (of_int r + 1) setWidth) (tileSize env))
                     relativeTileId,
          tile_y = map_option
                     (\<lambda>r. num_times env (of_int \<lfloor>num_divide env (of_int r) setWidth\<rfloor>)
                            (tileSize env))
                     relativeTileId,
          tile_width = tileSize env,
          tile_height = tileSize env\<rparr>)"

definition cellGeometry :: "'a Env \<Rightarrow> nat \<Rightarrow> RendererCell" where
  "cellGeometry env index =
     \<lparr>cell_dx = of_int \<lceil>num_times env (getX (real index + 1) (real (map_width env)))
                            (actualTileSize env)\<rceil>,
      cell_dy = of_int \<lceil>num_times env
                            (of_int \<lfloor>num_divide env (real index) (real (map_width env))\<rfloor>)
                            (actualTileSize env)\<rceil>,
      cell_width = of_int \<lceil>actualTileSize env\<rceil>,
      cell_height = of_int \<lceil>actualTileSize env\<rceil>\<rparr>"

text \<open>
  \<open>drawTile\<close>. The last step reads both caches back; the entries were ensured just before,
  so the fall-through branch of the final case is never reached.
\<close>

definition drawTile ::
  "'a Env \<Rightarrow> Context \<Rightarrow> TileId \<Rightarrow> nat \<Rightarrow> TileFlip list \<Rightarrow> 'a Canvas \<Rightarrow> 'a Canvas" where
  "drawTile env context tileId index flips c =
     (if isNegative tileId then c
      else
        (case map_getTilesetFromId env tileId of
           None \<Rightarrow> c
         | Some tileset \<Rightarrow>
             (let c1 = (if tiles c (propertyKey tileId) = None
                        then c\<lparr>tiles := (tiles c)(propertyKey tileId \<mapsto>
                                            tileGeometry env tileset tileId)\<rparr>
                        else c);
                  c2 = (if cells c1 index = None \<or> 0 < length flips
                        then c1\<lparr>cells := (cells c1)(index \<mapsto> cellGeometry env index)\<rparr>
                        else c1)
              in (case (tiles c2 (propertyKey tileId), cells c2 index) of
                    (Some tile, Some cell) \<Rightarrow> drawImage context tileset tile cell flips c2
                  | _ \<Rightarrow> c2))))"

definition resetAnimatedTiles :: "'a Canvas \<Rightarrow> 'a Canvas" where
  "resetAnimatedTiles c =
     c\<lparr>animatedTiles :=
         (\<lambda>key. map_option (\<lambda>tile. tile\<lparr>animationIndex := 0\<rparr>) (animatedTiles c key))\<rparr>"

definition addAnimatedTile :: "'a Env \<Rightarrow> TileId \<Rightarrow> int \<Rightarrow> 'a Canvas \<Rightarrow> 'a Canvas" where
  "addAnimatedTile env tileId index c =
     (let identifier = (if index = - 1 then TileKey (propertyKey tileId)
                        else TileIndexKey (propertyKey tileId) index)
      in resetAnimatedTiles
           (c\<lparr>animatedTiles :=
                (animatedTiles c)(identifier \<mapsto>
                   new_Tile tileId index (map_getTileAnimation env tileId) False
                     (map_isHighTile env tileId))\<rparr>))"

definition drawAnimatedTile ::
  "'a Env \<Rightarrow> TileId \<Rightarrow> nat \<Rightarrow> TileFlip list \<Rightarrow> 'a Canvas \<Rightarrow> 'a Canvas" where
  "drawAnimatedTile env tile index flips c =
     (if \<not> animateTiles env then c
      else
        (let isDynamicallyAnimated = map_dynamicAnimatedTiles env index;
             identifier = (if isDynamicallyAnimated
                           then TileIndexKey (propertyKey tile) (int index)
                           else TileKey (propertyKey tile));
             c1 = (if animatedTiles c identifier = None
                   then addAnimatedTile env tile
                          (if isDynamicallyAnimated then int index else - 1) c
                   else c)
         in (case animatedTiles c1 identifier of
               None \<Rightarrow> c1
             | Some animatedTile \<Rightarrow>
                 (let c2 = c1\<lparr>animatedTiles :=
                               (animatedTiles c1)(identifier \<mapsto>
                                  animatedTile\<lparr>lastAccessed := game_time env\<rparr>)\<rparr>
                  in if length flips = 0 \<and> isFlipped animatedTile then c2
                     else drawTile env
                            (if isHighTile animatedTile then foreContext else backContext)
                            (plusOne (tid animatedTile)) index flips c2))))"

text \<open>\<open>getFlipped\<close>. A plain number has no flags, so it yields no flip.\<close>

definition getFlipped :: "'a Env \<Rightarrow> ClientTile \<Rightarrow> TileFlip list" where
  "getFlipped env tile =
     (if \<not> map_isFlipped env tile then []
      else
        (case tile of
           Plain n \<Rightarrow> []
         | Transformed i h v d \<Rightarrow>
             (if v then [Vertical] else []) @ (if d then [Diagonal] else [])
               @ (if h then [Horizontal] else [])))"

text \<open>
  The value that the callback of \<open>draw\<close> goes on with as the tile id: the field \<open>tileId\<close>
  of the record when there are flips, the tile itself otherwise. A record that yields no
  flip is passed on as it is. A plain number never yields a flip, so the field is only
  read from records.
\<close>

fun tileAsNumber :: "ClientTile \<Rightarrow> TileFlip list \<Rightarrow> TileId" where
  "tileAsNumber (Plain n) flips = Num n"
| "tileAsNumber (Transformed i h v d) flips =
     (if 0 < length flips then Num i else Obj i h v d)"

text \<open>The callback that \<open>draw\<close> passes to \<open>forEachVisibleTile\<close>.\<close>

definition draw_callback :: "'a Env \<Rightarrow> ClientTile \<Rightarrow> nat \<Rightarrow> 'a Canvas \<Rightarrow> 'a Canvas" where
  "draw_callback env tile index c =
     (let flips = getFlipped env tile;
          t = tileAsNumber tile flips;
          isHigh = map_isHighTile env t;
          animated = map_isAnimatedTile env t;
          context0 = (if isHigh then foreContext else backContext);
          context = (if overlays_hasOverlay env
                     then (if map_isLightTile env t then overlayContext else context0)
                     else context0)
      in if animateTiles env \<and> animated
         then drawAnimatedTile env t index flips c
         else drawTile env context t index flips c)"

text \<open>
  Modelled from the spec: \<open>forEachVisibleTile\<close> belongs to the base class, which is not
  among the sources. By the spec it calls the callback for every visible tile, in order.
\<close>

fun forEachVisibleTile ::
  "'a Env \<Rightarrow> (ClientTile \<times> nat) list \<Rightarrow> 'a Canvas \<Rightarrow> 'a Canvas" where
  "forEachVisibleTile env [] c = c"
| "forEachVisibleTile env ((tile, index) # rest) c =
     forEachVisibleTile env rest (draw_callback env tile index c)"

definition drawingContexts :: "Context list" where
  "drawingContexts = [backContext, foreContext]"

definition forEachDrawingContext :: "ContextCall \<Rightarrow> 'a Canvas \<Rightarrow> 'a Canvas" where
  "forEachDrawingContext call c =
     c\<lparr>calls := calls c @ map (\<lambda>context. (context, call)) drawingContexts\<rparr>"

text \<open>
  \<open>draw\<close>. The frame cache (\<open>hasRenderedFrame\<close>, \<open>saveFrame\<close>) belongs to the base class;
  saving the frame does not touch the state modelled here.
\<close>

definition draw :: "'a Env \<Rightarrow> 'a Canvas \<Rightarrow> 'a Canvas" where
  "draw env c =
     (if hasRenderedFrame env then c
      else
        (let c1 = forEachDrawingContext ClearScreen c;
             c2 = forEachDrawingContext Save c1;
             c3 = c2\<lparr>calls := calls c2 @
                    [(backContext, FillStyle ''rgba(9, 10, 20, 1)''),
                     (backContext, FillRect 0 0 (background_width env) (background_height env))]\<rparr>;
             c4 = forEachDrawingContext SetCameraView c3;
             c5 = forEachVisibleTile env (visibleTiles env) c4
         in forEachDrawingContext Restore c5))"

text \<open>The blits recorded in a call log.\<close>

fun isBlit :: "Context \<times> ContextCall \<Rightarrow> bool" where
  "isBlit (context, DrawImage img sx sy sw sh dx dy dw dh) = True"
| "isBlit (context, call) = False"

definition blits :: "CallLog \<Rightarrow> CallLog" where
  "blits cs = filter isBlit cs"

section \<open>Vocabulary of the statements\<close>

text \<open>The context calls that one round of the flip loop issues for the flip it reads.\<close>

fun flipCalls :: "RendererCell \<Rightarrow> TileFlip \<Rightarrow> ContextCall list" where
  "flipCalls cell Horizontal = [Scale (- 1) 1]"
| "flipCalls cell Vertical = [Scale 1 (- 1)]"
| "flipCalls cell Diagonal = [Rotate (pi / 2), Translate 0 (- cell_height cell)]"

text \<open>
  The compensating flip for a diagonal at position \<open>p\<close> of the list \<open>live\<close>: horizontal
  when the next element exists and is horizontal, vertical otherwise.
\<close>

definition synthetic :: "TileFlip list \<Rightarrow> nat \<Rightarrow> TileFlip" where
  "synthetic live p =
     (if Suc p < length live \<and> live ! Suc p = Horizontal then Horizontal else Vertical)"

text \<open>The calls that one \<open>drawImage\<close> adds to the log of its surface.\<close>

definition blitCalls ::
  "Context \<Rightarrow> Tileset \<Rightarrow> RendererTile \<Rightarrow> RendererCell \<Rightarrow> TileFlip list \<Rightarrow> CallLog" where
  "blitCalls context img tile cell flips =
     calls (drawImage context img tile cell flips (initial :: unit Canvas))"

text \<open>
  The geometries that \<open>drawTile\<close> hands to \<open>drawImage\<close>: the cached tile entry if there is
  one, and the cached cell entry if there is one and the call carries no flip; the freshly
  computed geometry otherwise.
\<close>

definition tileUsed :: "'a Env \<Rightarrow> Tileset \<Rightarrow> TileId \<Rightarrow> 'a Canvas \<Rightarrow> RendererTile" where
  "tileUsed env tileset tileId c =
     (case tiles c (propertyKey tileId) of
        None \<Rightarrow> tileGeometry env tileset tileId
      | Some tile \<Rightarrow> tile)"

definition cellUsed :: "'a Env \<Rightarrow> nat \<Rightarrow> TileFlip list \<Rightarrow> 'a Canvas \<Rightarrow> RendererCell" where
  "cellUsed env index flips c =
     (case cells c index of
        None \<Rightarrow> cellGeometry env index
      | Some cell \<Rightarrow> if 0 < length flips then cellGeometry env index else cell)"

text \<open>
  The animated tile that \<open>drawAnimatedTile\<close> finds for a tile id that is not dynamically
  animated: the stored one, or the one that \<open>addAnimatedTile\<close> creates for it.
\<close>

definition tileFound :: "'a Env \<Rightarrow> TileId \<Rightarrow> 'a Canvas \<Rightarrow> 'a Tile" where
  "tileFound env t c =
     (case animatedTiles c (TileKey (propertyKey t)) of
        None \<Rightarrow> new_Tile t (- 1) (map_getTileAnimation env t) False (map_isHighTile env t)
      | Some animatedTile \<Rightarrow> animatedTile)"

text \<open>
  The tile id and the surface with which a visible tile of the animated tile id \<open>t\<close>
  reaches \<open>drawTile\<close>: through the animated tile when animation is on (its frame, its
  layer), directly otherwise (the id itself, the surface of the callback).
\<close>

definition frameDrawn :: "'a Env \<Rightarrow> int \<Rightarrow> 'a Canvas \<Rightarrow> TileId" where
  "frameDrawn env t c =
     (if animateTiles env then plusOne (tid (tileFound env (Num t) c)) else Num t)"

definition surfaceDrawn :: "'a Env \<Rightarrow> int \<Rightarrow> 'a Canvas \<Rightarrow> Context" where
  "surfaceDrawn env t c =
     (if animateTiles env
      then (if isHighTile (tileFound env (Num t) c) then foreContext else backContext)
      else if overlays_hasOverlay env \<and> map_isLightTile env (Num t) then overlayContext
      else if map_isHighTile env (Num t) then foreContext
      else backContext)"

text \<open>The calls of \<open>draw\<close> before and after the visible tiles.\<close>

definition frameStart :: "'a Env \<Rightarrow> CallLog" where
  "frameStart env =
     [(backContext, ClearScreen), (foreContext, ClearScreen),
      (backContext, Save), (foreContext, Save),
      (backContext, FillStyle ''rgba(9, 10, 20, 1)''),
      (backContext, FillRect 0 0 (background_width env) (background_height env)),
      (backContext, SetCameraView), (foreContext, SetCameraView)]"

definition frameEnd :: CallLog where
  "frameEnd = [(backContext, Restore), (foreContext, Restore)]"

text \<open>
  The state of a draw pass when the callback has run for the first \<open>k\<close> visible tiles.
\<close>

definition passState :: "'a Env \<Rightarrow> 'a Canvas \<Rightarrow> nat \<Rightarrow> 'a Canvas" where
  "passState env c k =
     forEachVisibleTile env (take k (visibleTiles env)) (c\<lparr>calls := calls c @ frameStart env\<rparr>)"

text \<open>No stored animated tile is flagged as flipped.\<close>

definition noneFlipped :: "'a Canvas \<Rightarrow> bool" where
  "noneFlipped c = (\<forall>key tile. animatedTiles c key = Some tile \<longrightarrow> \<not> isFlipped tile)"

text \<open>
  Whether a call of \<open>drawAnimatedTile\<close> returns at its de-duplication branch: the
  condition \<open>flips.length === 0 && animatedTile.isFlipped\<close>, evaluated on the tile that
  the call has looked up by then. It is false when the call returns before that point.
\<close>

definition dedupTaken :: "'a Env \<Rightarrow> TileId \<Rightarrow> nat \<Rightarrow> TileFlip list \<Rightarrow> 'a Canvas \<Rightarrow> bool" where
  "dedupTaken env tile index flips c =
     (animateTiles env \<and>
      (let isDynamicallyAnimated = map_dynamicAnimatedTiles env index;
           identifier = (if isDynamicallyAnimated
                         then TileIndexKey (propertyKey tile) (int index)
                         else TileKey (propertyKey tile));
           c1 = (if animatedTiles c identifier = None
                 then addAnimatedTile env tile
                        (if isDynamicallyAnimated then int index else - 1) c
                 else c)
       in (case animatedTiles c1 identifier of
             None \<Rightarrow> False
           | Some animatedTile \<Rightarrow> length flips = 0 \<and> isFlipped animatedTile)))"

text \<open>
  The states the renderer can be in: the initial one, and those that its operations
  produce from a reachable state, for any environment and arguments.

  Modelled from the spec: the stepping of animations is external to the renderer and not
  among the sources. By the spec it advances the playback state of a stored tile (the
  frame it shows and its frame index) and leaves the flip flag and the layer flag as they
  are; this is the last rule.
\<close>

inductive reachable :: "'a Canvas \<Rightarrow> bool" where
  reach_initial: "reachable initial"
| reach_resize: "reachable c \<Longrightarrow> reachable (resize c)"
| reach_draw: "reachable c \<Longrightarrow> reachable (draw env c)"
| reach_drawTile: "reachable c \<Longrightarrow> reachable (drawTile env context tileId index flips c)"
| reach_drawAnimatedTile:
    "reachable c \<Longrightarrow> reachable (drawAnimatedTile env tile index flips c)"
| reach_addAnimatedTile: "reachable c \<Longrightarrow> reachable (addAnimatedTile env tileId i c)"
| reach_animate:
    "reachable c \<Longrightarrow> animatedTiles c key = Some tile \<Longrightarrow>
     reachable (c\<lparr>animatedTiles :=
                    (animatedTiles c)(key \<mapsto> tile\<lparr>tid := frame, animationIndex := k\<rparr>)\<rparr>)"

subsection \<open>Example inputs\<close>

definition example_tileset :: Tileset where
  "example_tileset = \<lparr>tileset_width = 160, firstGid = 1\<rparr>"

text \<open>
  A map of width 10 drawn at three times its tile size of 16. Tile 7 is a high tile, tiles 7
  and 8 are light tiles, tile 9 is animated; every positive tile id belongs to the one tileset.
  Tile 9 is visible at two indices, flipped at index 3 and plain at index 4. The product
  and the quotient are the exact ones; on the whole numbers used below they agree with the
  engine's, up to the floor that is taken of the quotient.
\<close>

definition example_env :: "unit Env" where
  "example_env =
     \<lparr>map_isHighTile = (\<lambda>t. t = Num 7),
      map_isAnimatedTile = (\<lambda>t. t = Num 9),
      map_isLightTile = (\<lambda>t. t = Num 7 \<or> t = Num 8),
      map_isFlipped = (\<lambda>tile. case tile of Plain n \<Rightarrow> False
                                | Transformed i h v d \<Rightarrow> h \<or> v \<or> d),
      map_getTilesetFromId = (\<lambda>t. case t of Num n \<Rightarrow> if 1 \<le> n then Some example_tileset else None
                                     | Obj i h v d \<Rightarrow> None
                                     | ObjText k \<Rightarrow> None),
      map_getTileAnimation = (\<lambda>t. ()),
      map_dynamicAnimatedTiles = (\<lambda>i. False),
      map_width = 10,
      tileSize = 16,
      actualTileSize = 48,
      animateTiles = True,
      overlays_hasOverlay = False,
      game_time = 5,
      hasRenderedFrame = False,
      visibleTiles = [(Transformed 9 True False False, 3), (Plain 9, 4)],
      background_width = 480,
      background_height = 320,
      num_times = (\<lambda>a b. a * b),
      num_divide = (\<lambda>a b. a / b)\<rparr>"

text \<open>
  A state with one animated tile that has advanced to frame 4, and the cell of index 12
  cached at an earlier scale of 32.
\<close>

definition example_canvas :: "unit Canvas" where
  "example_canvas =
     initial
       \<lparr>animatedTiles :=
          [TileKey (NumKey 3) \<mapsto> (new_Tile (Num 3) (- 1) () False False)\<lparr>animationIndex := 4\<rparr>],
        cells := [12 \<mapsto> \<lparr>cell_dx = 64, cell_dy = 32, cell_width = 32, cell_height = 32\<rparr>]\<rparr>"

text \<open>The cell of map index 12 in the example environment.\<close>

definition example_cell :: RendererCell where
  "example_cell = \<lparr>cell_dx = 96, cell_dy = 48, cell_width = 48, cell_height = 48\<rparr>"

text \<open>
  The cell of map index 1 (top row, second column) in the example environment, and the
  source rectangle of tile id 5 in the example tileset.
\<close>

definition example_top_cell :: RendererCell where
  "example_top_cell = \<lparr>cell_dx = 48, cell_dy = 0, cell_width = 48, cell_height = 48\<rparr>"

definition example_tile :: RendererTile where
  "example_tile =
     \<lparr>relativeTileId = Some 4, setWidth = 10, tile_x = Some 64, tile_y = Some 0,
      tile_width = 16, tile_height = 16\<rparr>"

text \<open>
  The example map with two plain visible tiles, the high tile 7 at index 11 and the low
  tile 5 at index 12, and the same with an overlay active.
\<close>

definition example_plain_env :: "unit Env" where
  "example_plain_env = example_env\<lparr>visibleTiles := [(Plain 7, 11), (Plain 5, 12)]\<rparr>"

definition example_overlay_env :: "unit Env" where
  "example_overlay_env = example_plain_env\<lparr>overlays_hasOverlay := True\<rparr>"



text \<open>The example map when the map resolves no tileset for any tile id.\<close>

definition example_bare_env :: "unit Env" where
  "example_bare_env = example_env\<lparr>map_getTilesetFromId := (\<lambda>t. None)\<rparr>"

section \<open>Frame lemmas\<close>

lemma drawImage_frame [simp]:
  "animatedTiles (drawImage context img tile cell flips c) = animatedTiles c"
  "tiles (drawImage context img tile cell flips c) = tiles c"
  "cells (drawImage context img tile cell flips c) = cells c"
  by (simp_all add: drawImage_def split: prod.splits)

lemma drawTile_animatedTiles [simp]:
  "animatedTiles (drawTile env context tileId index flips c) = animatedTiles c"
  by (simp add: drawTile_def Let_def split: option.splits)

lemma drawTile_tiles:
  "tiles (drawTile env context tileId index flips c) =
     (if isNegative tileId then tiles c
      else case map_getTilesetFromId env tileId of
             None \<Rightarrow> tiles c
           | Some tileset \<Rightarrow>
               (if tiles c (propertyKey tileId) = None
                then (tiles c)(propertyKey tileId \<mapsto> tileGeometry env tileset tileId)
                else tiles c))"
  by (auto simp add: drawTile_def Let_def split: option.splits)

lemma drawTile_cells:
  "cells (drawTile env context tileId index flips c) =
     (if isNegative tileId then cells c
      else case map_getTilesetFromId env tileId of
             None \<Rightarrow> cells c
           | Some tileset \<Rightarrow>
               (if cells c index = None \<or> 0 < length flips
                then (cells c)(index \<mapsto> cellGeometry env index)
                else cells c))"
  by (auto simp add: drawTile_def Let_def split: option.splits)

section \<open>Skipped draws\<close>

text \<open>
  C9. \<open>drawTile\<close> returns without any effect when the tile id is negative and when the map
  resolves no tileset for it: the state after the call is the state before it, so no blit
  is issued and neither geometry cache changes. The function is total, and no error
  value exists in the model because the source raises none.
\<close>

theorem drawTile_skips:
  "isNegative tileId \<or> map_getTilesetFromId env tileId = None \<Longrightarrow>
   drawTile env context tileId index flips c = c"
  by (auto simp: drawTile_def)

theorem drawTile_skips_witness:
  "isNegative (Num (- 1)) \<and> map_getTilesetFromId example_env (Num 0) = None \<and>
   drawTile example_env backContext (Num (- 1)) 12 [] example_canvas = example_canvas \<and>
   drawTile example_env foreContext (Num 0) 12 [Horizontal] example_canvas = example_canvas"
proof -
  have neg: "isNegative (Num (- 1)) \<or> map_getTilesetFromId example_env (Num (- 1)) = None"
    by simp
  have none: "map_getTilesetFromId example_env (Num 0) = None" by (simp add: example_env_def)
  then have "isNegative (Num 0) \<or> map_getTilesetFromId example_env (Num 0) = None" by simp
  from drawTile_skips [OF neg] drawTile_skips [OF this] none show ?thesis by simp
qed

section \<open>Resize\<close>

text \<open>
  C3. After \<open>resize\<close> the cell cache is empty, so the next \<open>drawTile\<close> that reaches the cell
  cache for any index recomputes the entry from the environment of that call (the new
  scale). The tile cache, the animated tiles and the call log are as before.
\<close>

theorem resize_clears_cells_only:
  "cells (resize c) = Map.empty \<and> tiles (resize c) = tiles c \<and>
   animatedTiles (resize c) = animatedTiles c \<and> calls (resize c) = calls c \<and>
   (\<forall>env context tileId index flips tileset.
      \<not> isNegative tileId \<longrightarrow> map_getTilesetFromId env tileId = Some tileset \<longrightarrow>
      cells (drawTile env context tileId index flips (resize c)) index
        = Some (cellGeometry env index))"
  by (simp add: resize_def drawTile_cells)

lemma js_rem_nat: "0 < w \<Longrightarrow> js_rem (real i) (real w) = real (i mod w)"
proof -
  assume "0 < w"
  have "\<lfloor>real i / real w\<rfloor> = int (i div w)"
    by (simp add: floor_divide_of_nat_eq)
  moreover have "real i = real w * real (i div w) + real (i mod w)"
    by (metis mult_div_mod_eq of_nat_add of_nat_mult)
  ultimately show ?thesis
    by (simp add: js_rem_def)
qed

lemma cellGeometry_eq:
  "0 < map_width env \<Longrightarrow>
   cellGeometry env index =
     \<lparr>cell_dx = of_int \<lceil>num_times env (real (index mod map_width env))
                            (actualTileSize env)\<rceil>,
      cell_dy = of_int \<lceil>num_times env
                            (of_int \<lfloor>num_divide env (real index) (real (map_width env))\<rfloor>)
                            (actualTileSize env)\<rceil>,
      cell_width = of_int \<lceil>actualTileSize env\<rceil>,
      cell_height = of_int \<lceil>actualTileSize env\<rceil>\<rparr>"
  using js_rem_nat [of "map_width env" index]
  by (simp add: cellGeometry_def getX_def)

lemma example_cell_12:
  "cellGeometry example_env 12 =
     \<lparr>cell_dx = 96, cell_dy = 48, cell_width = 48, cell_height = 48\<rparr>"
proof -
  have "0 < map_width example_env" by (simp add: example_env_def)
  from cellGeometry_eq [OF this] show ?thesis by (simp add: example_env_def)
qed

theorem resize_clears_cells_only_witness:
  "cells example_canvas 12
     = Some \<lparr>cell_dx = 64, cell_dy = 32, cell_width = 32, cell_height = 32\<rparr> \<and>
   cells (resize example_canvas) 12 = None \<and>
   map_getTilesetFromId example_env (Num 5) = Some example_tileset \<and>
   cells (drawTile example_env backContext (Num 5) 12 [] (resize example_canvas)) 12
     = Some \<lparr>cell_dx = 96, cell_dy = 48, cell_width = 48, cell_height = 48\<rparr>"
proof -
  have ts: "map_getTilesetFromId example_env (Num 5) = Some example_tileset"
    by (simp add: example_env_def)
  from resize_clears_cells_only [of example_canvas]
  have "cells (resize example_canvas) = Map.empty"
    and "cells (drawTile example_env backContext (Num 5) 12 [] (resize example_canvas)) 12
           = Some (cellGeometry example_env 12)"
    using ts by simp_all
  with ts show ?thesis
    by (simp add: example_cell_12 example_canvas_def)
qed

section \<open>Animated tiles\<close>

text \<open>
  C4. After \<open>addAnimatedTile\<close> every tile of the collection, the new one included, is at
  animation frame 0, and the collection holds the keys it held before and the new key.
\<close>

theorem addAnimatedTile_resets:
  "(\<forall>key tile. animatedTiles (addAnimatedTile env tileId index c) key = Some tile \<longrightarrow>
      animationIndex tile = 0) \<and>
   dom (animatedTiles (addAnimatedTile env tileId index c)) =
     insert (if index = - 1 then TileKey (propertyKey tileId)
             else TileIndexKey (propertyKey tileId) index)
       (dom (animatedTiles c))"
  by (auto simp: addAnimatedTile_def resetAnimatedTiles_def Let_def dom_def split: if_splits)

theorem addAnimatedTile_resets_witness:
  "(\<exists>tile. animatedTiles example_canvas (TileKey (NumKey 3)) = Some tile \<and>
           animationIndex tile = 4) \<and>
   (\<exists>tile. animatedTiles (addAnimatedTile example_env (Num 9) (- 1) example_canvas)
              (TileKey (NumKey 3)) = Some tile \<and> animationIndex tile = 0) \<and>
   (\<exists>tile. animatedTiles (addAnimatedTile example_env (Num 9) (- 1) example_canvas)
              (TileKey (NumKey 9)) = Some tile \<and> animationIndex tile = 0)"
proof -
  have old: "\<exists>tile. animatedTiles example_canvas (TileKey (NumKey 3)) = Some tile \<and>
                    animationIndex tile = 4"
    by (simp add: example_canvas_def new_Tile_def)
  note reset = addAnimatedTile_resets [of example_env "Num 9" "- 1" example_canvas]
  have "TileKey (NumKey 3)
          \<in> dom (animatedTiles (addAnimatedTile example_env (Num 9) (- 1) example_canvas))"
    and "TileKey (NumKey 9)
          \<in> dom (animatedTiles (addAnimatedTile example_env (Num 9) (- 1) example_canvas))"
    using reset old by auto
  then show ?thesis
    using reset old by blast
qed

section \<open>The flip loop of drawImage\<close>

lemma flip_loop_append:
  "flip_loop ctx cell tempX index flips dx dy cs = (flips', dx', dy', cs') \<Longrightarrow>
   \<exists>ys. flips' = flips @ ys \<and> length ys = count_list (drop index flips) Diagonal"
proof (induction ctx cell tempX index flips dx dy cs rule: flip_loop.induct)
  case (1 ctx cell tempX index flips dx dy cs)
  show ?case
  proof (cases "index < length flips")
    case False
    with "1.prems" show ?thesis by (simp add: flip_loop.simps)
  next
    case True
    then have dr: "drop index flips = flips ! index # drop (Suc index) flips"
      by (simp add: Cons_nth_drop_Suc)
    show ?thesis
    proof (cases "flips ! index")
      case Horizontal
      with True "1.prems" "1.IH"(1) dr show ?thesis
        by (simp add: flip_loop.simps [of ctx cell tempX index])
    next
      case Vertical
      with True "1.prems" "1.IH"(2) dr show ?thesis
        by (simp add: flip_loop.simps [of ctx cell tempX index])
    next
      case Diagonal
      with True "1.prems" "1.IH"(3) dr show ?thesis
        by (auto simp add: flip_loop.simps [of ctx cell tempX index])
    qed
  qed
qed

lemma flip_loop_calls:
  "flip_loop ctx cell tempX index flips dx dy cs = (flips', dx', dy', cs') \<Longrightarrow>
   cs' = cs @ map (Pair ctx) (concat (map (flipCalls cell) (drop index flips')))"
proof (induction ctx cell tempX index flips dx dy cs rule: flip_loop.induct)
  case (1 ctx cell tempX index flips dx dy cs)
  from flip_loop_append [OF "1.prems"] obtain ys where ys: "flips' = flips @ ys" by blast
  show ?case
  proof (cases "index < length flips")
    case False
    with "1.prems" show ?thesis by (simp add: flip_loop.simps)
  next
    case True
    then have "index < length flips'" and nth: "flips' ! index = flips ! index"
      using ys by (simp_all add: nth_append)
    then have dr: "drop index flips' = flips ! index # drop (Suc index) flips'"
      using Cons_nth_drop_Suc [of index flips'] by simp
    show ?thesis
    proof (cases "flips ! index")
      case Horizontal
      with True "1.prems" "1.IH"(1) dr show ?thesis
        by (simp add: flip_loop.simps [of ctx cell tempX index])
    next
      case Vertical
      with True "1.prems" "1.IH"(2) dr show ?thesis
        by (simp add: flip_loop.simps [of ctx cell tempX index])
    next
      case Diagonal
      with True "1.prems" "1.IH"(3) dr show ?thesis
        by (simp add: flip_loop.simps [of ctx cell tempX index])
    qed
  qed
qed

lemma count_drop_step:
  "index < p \<Longrightarrow> p \<le> length flips \<Longrightarrow>
   count_list (drop index (take p flips)) Diagonal =
     (if flips ! index = Diagonal then 1 else 0)
       + count_list (drop (Suc index) (take p flips)) Diagonal"
proof -
  assume less: "index < p" "p \<le> length flips"
  then have "index < length (take p flips)" by simp
  then have "drop index (take p flips) = take p flips ! index # drop (Suc index) (take p flips)"
    by (simp only: Cons_nth_drop_Suc)
  with less show ?thesis by simp
qed

lemma flip_loop_synthetic:
  "flip_loop ctx cell tempX index flips dx dy cs = (flips', dx', dy', cs') \<Longrightarrow>
   index \<le> p \<Longrightarrow> p < length flips \<Longrightarrow> flips ! p = Diagonal \<Longrightarrow>
   flips' ! (length flips + count_list (drop index (take p flips)) Diagonal) =
     synthetic (take (length flips + count_list (drop index (take p flips)) Diagonal) flips') p"
proof (induction ctx cell tempX index flips dx dy cs rule: flip_loop.induct)
  case (1 ctx cell tempX index flips dx dy cs)
  from "1.prems" have lt: "index < length flips" by simp
  show ?case
  proof (cases "p = index")
    case True
    let ?x = "synthetic flips index"
    from "1.prems" True lt
    have "flip_loop ctx cell tempX (Suc index) (flips @ [?x]) dy (- tempX)
            (cs @ [(ctx, Rotate (pi / 2)), (ctx, Translate 0 (- cell_height cell))])
          = (flips', dx', dy', cs')"
      by (simp add: flip_loop.simps [of ctx cell tempX index] synthetic_def)
    from flip_loop_append [OF this] obtain ys where "flips' = flips @ ?x # ys" by auto
    with True show ?thesis by (simp add: nth_append)
  next
    case False
    with "1.prems" have less: "index < p" "p \<le> length flips" by simp_all
    note step = count_drop_step [OF less]
    show ?thesis
    proof (cases "flips ! index")
      case Horizontal
      with lt "1.prems" have "flip_loop ctx cell tempX (Suc index) flips
          (- dx - cell_width cell) dy (cs @ [(ctx, Scale (- 1) 1)]) = (flips', dx', dy', cs')"
        by (simp add: flip_loop.simps [of ctx cell tempX index])
      from "1.IH"(1) [OF lt Horizontal this] less "1.prems" step Horizontal
      show ?thesis by simp
    next
      case Vertical
      with lt "1.prems" have "flip_loop ctx cell tempX (Suc index) flips
          dx (- dy - cell_height cell) (cs @ [(ctx, Scale 1 (- 1))]) = (flips', dx', dy', cs')"
        by (simp add: flip_loop.simps [of ctx cell tempX index])
      from "1.IH"(2) [OF lt Vertical this] less "1.prems" step Vertical
      show ?thesis by simp
    next
      case Diagonal
      let ?x = "if Suc index < length flips \<and> flips ! Suc index = Horizontal
                then Horizontal else Vertical"
      from Diagonal lt "1.prems"
      have "flip_loop ctx cell tempX (Suc index) (flips @ [?x]) dy (- tempX)
              (cs @ [(ctx, Rotate (pi / 2)), (ctx, Translate 0 (- cell_height cell))])
            = (flips', dx', dy', cs')"
        by (simp add: flip_loop.simps [of ctx cell tempX index])
      from "1.IH"(3) [OF lt Diagonal this] less "1.prems" step Diagonal
      show ?thesis by (simp add: nth_append)
    qed
  qed
qed

lemma flip_loop_single:
  assumes run: "flip_loop ctx cell tempX 0 flips dx dy cs = (flips', dx', dy', cs')"
    and flips: "flips = pre @ Diagonal # post"
    and pre: "Diagonal \<notin> set pre" and post: "Diagonal \<notin> set post"
  shows "flips' = flips @ [if post \<noteq> [] \<and> hd post = Horizontal then Horizontal else Vertical]"
proof -
  have cnt: "count_list flips Diagonal = 1"
    using flips pre post by (simp add: count_list_0_iff)
  from flip_loop_append [OF run] cnt obtain y where y: "flips' = flips @ [y]"
    by (auto simp: length_Suc_conv)
  have "flips' ! (length flips + count_list (drop 0 (take (length pre) flips)) Diagonal) =
     synthetic (take (length flips + count_list (drop 0 (take (length pre) flips)) Diagonal) flips')
       (length pre)"
    by (rule flip_loop_synthetic [OF run]) (simp_all add: flips)
  moreover have "count_list (take (length pre) flips) Diagonal = 0"
    using pre by (simp add: flips count_list_0_iff)
  moreover have "flips' ! length flips = y" "take (length flips) flips' = flips"
    using y by simp_all
  ultimately have "y = synthetic flips (length pre)"
    by simp
  also have "\<dots> = (if post \<noteq> [] \<and> hd post = Horizontal then Horizontal else Vertical)"
    by (cases post) (simp_all add: synthetic_def flips nth_append)
  finally show ?thesis using y by simp
qed

text \<open>
  C1. The loop of \<open>drawImage\<close>, started as \<open>drawImage\<close> starts it, ends with a list
  \<open>flips'\<close> of which the input is a prefix, followed by one pushed flip per diagonal of
  the input. When the loop reaches a diagonal at position \<open>p\<close>, \<open>k\<close> diagonals came before
  it, so the list being iterated is then the first \<open>length flips + k\<close> elements of
  \<open>flips'\<close>, and the flip pushed for \<open>p\<close> lands at position \<open>length flips + k\<close>: it is
  horizontal when that list has an element right after \<open>p\<close> that is horizontal, and
  vertical otherwise (another next element, or none). For an input with a single diagonal
  this is the input with one flip appended, horizontal exactly when the element after the
  diagonal is horizontal. The loop processes every element of \<open>flips'\<close> in order, the
  pushed ones included: the context calls it issues are those of each element of
  \<open>flips'\<close>, and \<open>drawImage\<close> brackets them by the save, and the blit and the restore.
\<close>

theorem diagonal_compensation:
  assumes run:
    "flip_loop ctx cell (cell_dx cell) 0 flips (cell_dx cell) (cell_dy cell)
       (calls c @ [(ctx, Save)]) = (flips', dx', dy', cs')"
  shows
    "take (length flips) flips' = flips \<and>
     length flips' = length flips + count_list flips Diagonal \<and>
     (\<forall>p < length flips. flips ! p = Diagonal \<longrightarrow>
        flips' ! (length flips + count_list (take p flips) Diagonal) =
          synthetic (take (length flips + count_list (take p flips) Diagonal) flips') p) \<and>
     (\<forall>pre post. flips = pre @ Diagonal # post \<and> Diagonal \<notin> set pre \<and> Diagonal \<notin> set post \<longrightarrow>
        flips' = flips @ [if post \<noteq> [] \<and> hd post = Horizontal then Horizontal else Vertical]) \<and>
     cs' = calls c @ (ctx, Save) # map (Pair ctx) (concat (map (flipCalls cell) flips')) \<and>
     (0 < length flips \<longrightarrow>
        calls (drawImage ctx img tile cell flips c) =
          cs' @ [(ctx, DrawImage img (tile_x tile) (tile_y tile) (tile_width tile)
                    (tile_height tile) (js_or dx' (cell_dx cell)) (js_or dy' (cell_dy cell))
                    (cell_width cell) (cell_height cell)),
                 (ctx, Restore)])"
proof -
  from flip_loop_append [OF run] obtain ys
    where ys: "flips' = flips @ ys" "length ys = count_list flips Diagonal"
    by auto
  have a: "take (length flips) flips' = flips" using ys by simp
  have b: "length flips' = length flips + count_list flips Diagonal" using ys by simp
  have c: "\<forall>p < length flips. flips ! p = Diagonal \<longrightarrow>
        flips' ! (length flips + count_list (take p flips) Diagonal) =
          synthetic (take (length flips + count_list (take p flips) Diagonal) flips') p"
    using flip_loop_synthetic [OF run] by simp
  have d: "\<forall>pre post. flips = pre @ Diagonal # post \<and> Diagonal \<notin> set pre \<and> Diagonal \<notin> set post \<longrightarrow>
        flips' = flips @ [if post \<noteq> [] \<and> hd post = Horizontal then Horizontal else Vertical]"
    using flip_loop_single [OF run] by blast
  have e: "cs' = calls c @ (ctx, Save) # map (Pair ctx) (concat (map (flipCalls cell) flips'))"
    using flip_loop_calls [OF run] by simp
  have f: "0 < length flips \<longrightarrow>
        calls (drawImage ctx img tile cell flips c) =
          cs' @ [(ctx, DrawImage img (tile_x tile) (tile_y tile) (tile_width tile)
                    (tile_height tile) (js_or dx' (cell_dx cell)) (js_or dy' (cell_dy cell))
                    (cell_width cell) (cell_height cell)),
                 (ctx, Restore)]"
    using run by (simp add: drawImage_def)
  from a b c d e f show ?thesis by blast
qed

theorem diagonal_compensation_witness:
  "fst (flip_loop backContext example_cell (cell_dx example_cell) 0
          [Vertical, Diagonal, Horizontal] (cell_dx example_cell) (cell_dy example_cell)
          (calls example_canvas @ [(backContext, Save)]))
     = [Vertical, Diagonal, Horizontal, Horizontal] \<and>
   fst (flip_loop backContext example_cell (cell_dx example_cell) 0
          [Vertical, Diagonal] (cell_dx example_cell) (cell_dy example_cell)
          (calls example_canvas @ [(backContext, Save)]))
     = [Vertical, Diagonal, Vertical]"
proof -
  obtain f1 x1 y1 l1 where r1:
    "flip_loop backContext example_cell (cell_dx example_cell) 0 [Vertical, Diagonal, Horizontal]
       (cell_dx example_cell) (cell_dy example_cell) (calls example_canvas @ [(backContext, Save)])
     = (f1, x1, y1, l1)"
    by (rule prod_cases4)
  obtain f2 x2 y2 l2 where r2:
    "flip_loop backContext example_cell (cell_dx example_cell) 0 [Vertical, Diagonal]
       (cell_dx example_cell) (cell_dy example_cell) (calls example_canvas @ [(backContext, Save)])
     = (f2, x2, y2, l2)"
    by (rule prod_cases4)
  note s1 = diagonal_compensation [OF r1, THEN conjunct2, THEN conjunct2, THEN conjunct2,
    THEN conjunct1]
  note s2 = diagonal_compensation [OF r2, THEN conjunct2, THEN conjunct2, THEN conjunct2,
    THEN conjunct1]
  from s1 [rule_format, of "[Vertical]" "[Horizontal]"] s2 [rule_format, of "[Vertical]" "[]"]
  have "f1 = [Vertical, Diagonal, Horizontal, Horizontal]" "f2 = [Vertical, Diagonal, Vertical]"
    by simp_all
  with r1 r2 show ?thesis by (simp only: fst_conv simp_thms)
qed

section \<open>Destination of the blit\<close>

lemma example_tile_5: "tileGeometry example_env example_tileset (Num 5) = example_tile"
  by (simp add: tileGeometry_def example_env_def example_tileset_def example_tile_def
      getX_def js_rem_def)

lemma example_cell_1: "cellGeometry example_env 1 = example_top_cell"
  by (simp add: cellGeometry_def example_env_def example_top_cell_def getX_def js_rem_def)

text \<open>
  C7. With no flip the blit goes to the cell rectangle. With flips the source passes
  \<open>dx || cell.dx\<close> and \<open>dy || cell.dy\<close>, so an adjusted coordinate that is zero is
  replaced by the cell's own coordinate. For a tile with a diagonal flip at map index 1
  (top row) of the example map the loop ends with the adjusted destination \<open>(0, 0)\<close>,
  yet the blit is issued at \<open>(48, 0)\<close>.
\<close>

theorem drawImage_zero_coordinate:
  "getFlipped example_env (Transformed 5 False False True) = [Diagonal] \<and>
   flip_loop backContext example_top_cell (cell_dx example_top_cell) 0 [Diagonal]
       (cell_dx example_top_cell) (cell_dy example_top_cell) [(backContext, Save)]
     = ([Diagonal, Vertical], 0, 0,
        [(backContext, Save), (backContext, Rotate (pi / 2)), (backContext, Translate 0 (- 48)),
         (backContext, Scale 1 (- 1))]) \<and>
   calls (drawImage backContext example_tileset example_tile example_top_cell [Diagonal]
            (initial :: unit Canvas))
     = [(backContext, Save), (backContext, Rotate (pi / 2)), (backContext, Translate 0 (- 48)),
        (backContext, Scale 1 (- 1)),
        (backContext, DrawImage example_tileset (Some 64) (Some 0) 16 16 48 0 48 48),
        (backContext, Restore)] \<and>
   drawTile example_env backContext (Num 5) 1 [Diagonal] initial
     = drawImage backContext example_tileset example_tile example_top_cell [Diagonal]
         (initial\<lparr>tiles := [NumKey 5 \<mapsto> example_tile], cells := [1 \<mapsto> example_top_cell]\<rparr>)"
proof -
  have loop: "flip_loop backContext example_top_cell (cell_dx example_top_cell) 0 [Diagonal]
       (cell_dx example_top_cell) (cell_dy example_top_cell) [(backContext, Save)]
     = ([Diagonal, Vertical], 0, 0,
        [(backContext, Save), (backContext, Rotate (pi / 2)), (backContext, Translate 0 (- 48)),
         (backContext, Scale 1 (- 1))])"
    by (simp add: flip_loop.simps example_top_cell_def)
  have flipped: "getFlipped example_env (Transformed 5 False False True) = [Diagonal]"
    by (simp add: getFlipped_def example_env_def)
  have blit: "calls (drawImage backContext example_tileset example_tile example_top_cell
                       [Diagonal] (initial :: unit Canvas))
     = [(backContext, Save), (backContext, Rotate (pi / 2)), (backContext, Translate 0 (- 48)),
        (backContext, Scale 1 (- 1)),
        (backContext, DrawImage example_tileset (Some 64) (Some 0) 16 16 48 0 48 48),
        (backContext, Restore)]"
    using loop
    by (simp add: drawImage_def initial_def js_or_def example_tile_def example_top_cell_def)
  have "map_getTilesetFromId example_env (Num 5) = Some example_tileset"
    by (simp add: example_env_def)
  then have tile: "drawTile example_env backContext (Num 5) 1 [Diagonal] initial
     = drawImage backContext example_tileset example_tile example_top_cell [Diagonal]
         (initial\<lparr>tiles := [NumKey 5 \<mapsto> example_tile], cells := [1 \<mapsto> example_top_cell]\<rparr>)"
    using example_cell_1 by (simp add: drawTile_def initial_def example_tile_5)
  from flipped loop blit tile show ?thesis by (simp only: simp_thms)
qed

section \<open>Tile geometry cache\<close>

lemma drawTile_cached_tile:
  assumes id: "\<not> isNegative tileId"
    and tileset: "map_getTilesetFromId env tileId = Some tileset"
    and cached: "tiles c (propertyKey tileId) = Some tile"
  shows "\<exists>cell. drawTile env context tileId index flips c =
           drawImage context tileset tile cell flips (c\<lparr>cells := (cells c)(index \<mapsto> cell)\<rparr>)"
proof (cases "cells c index = None \<or> 0 < length flips")
  case True
  with id tileset cached
  have "drawTile env context tileId index flips c =
          drawImage context tileset tile (cellGeometry env index) flips
            (c\<lparr>cells := (cells c)(index \<mapsto> cellGeometry env index)\<rparr>)"
    by (auto simp: drawTile_def)
  then show ?thesis by blast
next
  case False
  then obtain cell where cell: "cells c index = Some cell" and flips: "flips = []" by auto
  then have same: "c\<lparr>cells := (cells c)(index \<mapsto> cell)\<rparr> = c"
    by (simp add: map_upd_triv)
  from id tileset cached cell flips
  have "drawTile env context tileId index flips c = drawImage context tileset tile cell flips c"
    by (simp add: drawTile_def)
  with same show ?thesis by metis
qed

text \<open>
  C8. The first \<open>drawTile\<close> for a tile id that is not yet cached stores the geometry it
  computes from the environment and the tileset of that call; its width and height are the
  configured tile size. Every later \<open>drawTile\<close> for the same tile id leaves the tile cache
  as it is, whatever the environment of the later call is (so it does not compute the
  geometry again), and its blit reads the entry stored by the first call.
\<close>

theorem tile_geometry_memoized:
  assumes id: "\<not> isNegative tileId"
    and tileset: "map_getTilesetFromId env tileId = Some tileset"
    and fresh: "tiles c (propertyKey tileId) = None"
  shows
    "tiles (drawTile env context tileId index flips c) (propertyKey tileId)
       = Some (tileGeometry env tileset tileId) \<and>
     tile_width (tileGeometry env tileset tileId) = tileSize env \<and>
     tile_height (tileGeometry env tileset tileId) = tileSize env \<and>
     (\<forall>env' context' index' flips'.
        tiles (drawTile env' context' tileId index' flips'
                 (drawTile env context tileId index flips c))
          = tiles (drawTile env context tileId index flips c)) \<and>
     (\<forall>env' context' index' flips' tileset'.
        map_getTilesetFromId env' tileId = Some tileset' \<longrightarrow>
        (\<exists>cell.
           drawTile env' context' tileId index' flips'
             (drawTile env context tileId index flips c)
           = drawImage context' tileset' (tileGeometry env tileset tileId) cell flips'
               ((drawTile env context tileId index flips c)
                  \<lparr>cells := (cells (drawTile env context tileId index flips c))
                              (index' \<mapsto> cell)\<rparr>)))"
proof -
  let ?c1 = "drawTile env context tileId index flips c"
  have first: "tiles ?c1 (propertyKey tileId) = Some (tileGeometry env tileset tileId)"
    using id tileset fresh by (simp add: drawTile_tiles)
  have size: "tile_width (tileGeometry env tileset tileId) = tileSize env"
    "tile_height (tileGeometry env tileset tileId) = tileSize env"
    by (simp_all add: tileGeometry_def Let_def)
  have kept: "\<forall>env' context' index' flips'.
      tiles (drawTile env' context' tileId index' flips' ?c1) = tiles ?c1"
    using first by (simp add: drawTile_tiles [of _ _ _ _ _ ?c1] split: option.splits)
  have reads: "\<forall>env' context' index' flips' tileset'.
      map_getTilesetFromId env' tileId = Some tileset' \<longrightarrow>
      (\<exists>cell. drawTile env' context' tileId index' flips' ?c1
         = drawImage context' tileset' (tileGeometry env tileset tileId) cell flips'
             (?c1\<lparr>cells := (cells ?c1)(index' \<mapsto> cell)\<rparr>))"
    using drawTile_cached_tile [OF id _ first] by blast
  from first size kept reads show ?thesis by blast
qed

theorem tile_geometry_memoized_witness:
  "tiles example_canvas (NumKey 5) = None \<and>
   tiles (drawTile example_env backContext (Num 5) 12 [] example_canvas) (NumKey 5)
     = Some example_tile \<and>
   tile_width example_tile = tileSize example_env \<and>
   tiles (drawTile (example_env\<lparr>tileSize := 32\<rparr>) foreContext (Num 5) 13 [Horizontal]
            (drawTile example_env backContext (Num 5) 12 [] example_canvas)) (NumKey 5)
     = Some example_tile"
proof -
  have id: "\<not> isNegative (Num 5)" by simp
  have tileset: "map_getTilesetFromId example_env (Num 5) = Some example_tileset"
    by (simp add: example_env_def)
  have fresh: "tiles example_canvas (propertyKey (Num 5)) = None"
    by (simp add: example_canvas_def initial_def)
  note memo = tile_geometry_memoized [OF id tileset fresh, of backContext 12 "[]"]
  from memo have "tiles (drawTile example_env backContext (Num 5) 12 [] example_canvas) (NumKey 5)
      = Some example_tile"
    by (simp add: example_tile_5)
  moreover from memo
  have "tiles (drawTile (example_env\<lparr>tileSize := 32\<rparr>) foreContext (Num 5) 13 [Horizontal]
            (drawTile example_env backContext (Num 5) 12 [] example_canvas))
      = tiles (drawTile example_env backContext (Num 5) 12 [] example_canvas)"
    by blast
  moreover have "tile_width example_tile = tileSize example_env"
    by (simp add: example_tile_def example_env_def)
  ultimately show ?thesis using fresh by simp
qed

section \<open>The call log of a draw\<close>

lemma flip_loop_prefix:
  "flip_loop ctx cell tempX index flips dx dy (pre @ cs) =
     (case flip_loop ctx cell tempX index flips dx dy cs of
        (flips', dx', dy', cs') \<Rightarrow> (flips', dx', dy', pre @ cs'))"
proof (induction ctx cell tempX index flips dx dy cs rule: flip_loop.induct)
  case (1 ctx cell tempX index flips dx dy cs)
  show ?case
  proof (cases "index < length flips")
    case False
    then show ?thesis by (simp add: flip_loop.simps)
  next
    case True
    show ?thesis
    proof (cases "flips ! index")
      case Horizontal
      with True "1.IH"(1) show ?thesis
        by (simp add: flip_loop.simps [of ctx cell tempX index])
    next
      case Vertical
      with True "1.IH"(2) show ?thesis
        by (simp add: flip_loop.simps [of ctx cell tempX index])
    next
      case Diagonal
      with True "1.IH"(3) show ?thesis
        by (simp add: flip_loop.simps [of ctx cell tempX index])
    qed
  qed
qed

lemma drawImage_calls:
  "calls (drawImage context img tile cell flips c)
     = calls c @ blitCalls context img tile cell flips"
  using flip_loop_prefix [of "context" cell "cell_dx cell" 0 flips "cell_dx cell" "cell_dy cell"
      "calls c" "[(context, Save)]"]
  by (simp add: drawImage_def blitCalls_def initial_def split: prod.splits)

lemma blitCalls_plain:
  "blitCalls context img tile cell [] =
     [(context, DrawImage img (tile_x tile) (tile_y tile) (tile_width tile) (tile_height tile)
                  (cell_dx cell) (cell_dy cell) (cell_width cell) (cell_height cell))]"
  by (simp add: blitCalls_def drawImage_def initial_def js_or_def)

lemma no_blit_in_flipCalls:
  "filter isBlit (map (Pair context) (concat (map (flipCalls cell) flips))) = []"
proof (induction flips)
  case Nil
  show ?case by simp
next
  case (Cons flip flips)
  then show ?case by (cases flip) simp_all
qed

lemma blitCalls_shape:
  "(\<forall>call \<in> set (blitCalls context img tile cell flips). fst call = context) \<and>
   length (blits (blitCalls context img tile cell flips)) = 1"
proof (cases "0 < length flips")
  case False
  then show ?thesis by (simp add: blitCalls_plain blits_def)
next
  case True
  obtain flips' dx' dy' cs' where run:
    "flip_loop context cell (cell_dx cell) 0 flips (cell_dx cell) (cell_dy cell)
       (calls (initial :: unit Canvas) @ [(context, Save)]) = (flips', dx', dy', cs')"
    by (rule prod_cases4)
  from flip_loop_calls [OF run]
  have cs': "cs' = (context, Save) # map (Pair context) (concat (map (flipCalls cell) flips'))"
    by (simp add: initial_def)
  from True run have "blitCalls context img tile cell flips =
      cs' @ [(context, DrawImage img (tile_x tile) (tile_y tile) (tile_width tile)
                (tile_height tile) (js_or dx' (cell_dx cell)) (js_or dy' (cell_dy cell))
                (cell_width cell) (cell_height cell)),
             (context, Restore)]"
    by (simp add: blitCalls_def drawImage_def)
  with cs' show ?thesis
    by (auto simp: blits_def no_blit_in_flipCalls)
qed

lemma drawTile_drawn:
  assumes "\<not> isNegative tileId" and "map_getTilesetFromId env tileId = Some tileset"
  shows "calls (drawTile env context tileId index flips c) =
           calls c @ blitCalls context tileset (tileUsed env tileset tileId c)
                       (cellUsed env index flips c) flips"
    and "tiles (drawTile env context tileId index flips c) (propertyKey tileId)
           = Some (tileUsed env tileset tileId c)"
    and "cells (drawTile env context tileId index flips c) index
           = Some (cellUsed env index flips c)"
  using assms
  by (auto simp: drawTile_def drawImage_calls tileUsed_def cellUsed_def split: option.splits)

section \<open>The flipped flag of stored animated tiles\<close>

lemma noneFlipped_addAnimatedTile:
  "noneFlipped c \<Longrightarrow> noneFlipped (addAnimatedTile env tileId i c)"
  by (auto simp: noneFlipped_def addAnimatedTile_def resetAnimatedTiles_def new_Tile_def
      split: if_splits)

lemma noneFlipped_drawTile:
  "noneFlipped c \<Longrightarrow> noneFlipped (drawTile env context tileId index flips c)"
  by (simp add: noneFlipped_def)

lemma noneFlipped_drawAnimatedTile:
  assumes inv: "noneFlipped c"
  shows "noneFlipped (drawAnimatedTile env tile index flips c)"
proof -
  let ?dynamic = "map_dynamicAnimatedTiles env index"
  let ?key = "if ?dynamic then TileIndexKey (propertyKey tile) (int index)
              else TileKey (propertyKey tile)"
  let ?c1 = "if animatedTiles c ?key = None
             then addAnimatedTile env tile (if ?dynamic then int index else - 1) c else c"
  from inv have inv1: "noneFlipped ?c1"
    by (simp add: noneFlipped_addAnimatedTile)
  show ?thesis
  proof (cases "animatedTiles ?c1 ?key")
    case None
    with inv inv1 show ?thesis
      by (simp add: drawAnimatedTile_def Let_def)
  next
    case (Some animatedTile)
    let ?c2 = "?c1\<lparr>animatedTiles :=
                  (animatedTiles ?c1)(?key \<mapsto> animatedTile\<lparr>lastAccessed := game_time env\<rparr>)\<rparr>"
    from inv1 Some have "\<not> isFlipped animatedTile"
      by (auto simp: noneFlipped_def)
    with inv1 have "noneFlipped ?c2"
      by (auto simp: noneFlipped_def)
    then have "noneFlipped (drawTile env
        (if isHighTile animatedTile then foreContext else backContext)
        (plusOne (tid animatedTile)) index flips ?c2)"
      by (rule noneFlipped_drawTile)
    with inv Some \<open>noneFlipped ?c2\<close> show ?thesis
      by (simp add: drawAnimatedTile_def Let_def)
  qed
qed

lemma noneFlipped_callback:
  "noneFlipped c \<Longrightarrow> noneFlipped (draw_callback env tile index c)"
  by (simp add: draw_callback_def Let_def noneFlipped_drawTile noneFlipped_drawAnimatedTile)

lemma noneFlipped_forEachVisibleTile:
  "noneFlipped c \<Longrightarrow> noneFlipped (forEachVisibleTile env visible c)"
proof (induction visible arbitrary: c)
  case Nil
  then show ?case by simp
next
  case (Cons entry visible)
  obtain tile index where entry: "entry = (tile, index)" by (cases entry)
  from Cons.prems have "noneFlipped (draw_callback env tile index c)"
    by (rule noneFlipped_callback)
  from Cons.IH [OF this] entry show ?case by simp
qed

lemma noneFlipped_forEachDrawingContext:
  "noneFlipped (forEachDrawingContext call c) = noneFlipped c"
  by (simp add: noneFlipped_def forEachDrawingContext_def)

lemma noneFlipped_draw:
  assumes inv: "noneFlipped c"
  shows "noneFlipped (draw env c)"
proof (cases "hasRenderedFrame env")
  case True
  with inv show ?thesis by (simp add: draw_def)
next
  case False
  let ?c3 = "(forEachDrawingContext Save (forEachDrawingContext ClearScreen c))
      \<lparr>calls := calls (forEachDrawingContext Save (forEachDrawingContext ClearScreen c)) @
         [(backContext, FillStyle ''rgba(9, 10, 20, 1)''),
          (backContext, FillRect 0 0 (background_width env) (background_height env))]\<rparr>"
  let ?c4 = "forEachDrawingContext SetCameraView ?c3"
  from inv have "noneFlipped ?c3"
    by (simp add: noneFlipped_def forEachDrawingContext_def)
  then have "noneFlipped ?c4"
    by (simp add: noneFlipped_forEachDrawingContext)
  then have "noneFlipped (forEachVisibleTile env (visibleTiles env) ?c4)"
    by (rule noneFlipped_forEachVisibleTile)
  with False show ?thesis
    by (simp add: draw_def Let_def noneFlipped_forEachDrawingContext)
qed

lemma reachable_noneFlipped: "reachable c \<Longrightarrow> noneFlipped c"
proof (induction rule: reachable.induct)
  case reach_initial
  show ?case by (simp add: noneFlipped_def initial_def)
next
  case (reach_resize c)
  then show ?case by (simp add: noneFlipped_def resize_def)
next
  case (reach_draw c env)
  then show ?case by (simp add: noneFlipped_draw)
next
  case (reach_drawTile c env ctx tileId index flips)
  then show ?case by (simp add: noneFlipped_drawTile)
next
  case (reach_drawAnimatedTile c env tile index flips)
  then show ?case by (simp add: noneFlipped_drawAnimatedTile)
next
  case (reach_addAnimatedTile c env tileId i)
  then show ?case by (simp add: noneFlipped_addAnimatedTile)
next
  case (reach_animate c key tile frame k)
  then show ?case by (auto simp: noneFlipped_def)
qed

lemma noneFlipped_no_dedup: "noneFlipped c \<Longrightarrow> \<not> dedupTaken env tile index flips c"
proof -
  assume inv: "noneFlipped c"
  let ?dynamic = "map_dynamicAnimatedTiles env index"
  let ?key = "if ?dynamic then TileIndexKey (propertyKey tile) (int index)
              else TileKey (propertyKey tile)"
  let ?c1 = "if animatedTiles c ?key = None
             then addAnimatedTile env tile (if ?dynamic then int index else - 1) c else c"
  from inv have "noneFlipped ?c1"
    by (simp add: noneFlipped_addAnimatedTile)
  then have "\<forall>animatedTile. animatedTiles ?c1 ?key = Some animatedTile \<longrightarrow> \<not> isFlipped animatedTile"
    by (simp add: noneFlipped_def)
  then show ?thesis
    by (auto simp: dedupTaken_def Let_def split: option.splits)
qed

text \<open>
  C10. In every state that the renderer reaches from its initial state by its own
  operations and the external stepping of animations, no stored animated tile is flagged
  as flipped: the only writer of the collection that creates a tile is \<open>addAnimatedTile\<close>,
  which passes \<open>false\<close> for the flag, and the other writes keep it. Hence no call of
  \<open>drawAnimatedTile\<close> on such a state returns at the de-duplication branch, whatever the
  environment and the arguments.
\<close>

theorem stored_tiles_never_flipped:
  assumes "reachable c"
  shows "noneFlipped c \<and> (\<forall>env tile index flips. \<not> dedupTaken env tile index flips c)"
  using assms by (simp add: reachable_noneFlipped noneFlipped_no_dedup)

theorem stored_tiles_never_flipped_witness:
  "reachable (drawAnimatedTile example_env (Num 9) 3 [Horizontal] (initial :: unit Canvas)) \<and>
   animatedTiles (drawAnimatedTile example_env (Num 9) 3 [Horizontal] (initial :: unit Canvas))
     (TileKey (NumKey 9)) \<noteq> None \<and>
   noneFlipped (drawAnimatedTile example_env (Num 9) 3 [Horizontal] (initial :: unit Canvas)) \<and>
   \<not> dedupTaken example_env (Num 9) 4 []
       (drawAnimatedTile example_env (Num 9) 3 [Horizontal] (initial :: unit Canvas))"
proof -
  let ?c = "drawAnimatedTile example_env (Num 9) 3 [Horizontal] (initial :: unit Canvas)"
  have reach: "reachable ?c"
    by (rule reach_drawAnimatedTile) (rule reach_initial)
  have stored: "animatedTiles ?c (TileKey (NumKey 9)) \<noteq> None"
    by (simp add: drawAnimatedTile_def addAnimatedTile_def resetAnimatedTiles_def
        example_env_def initial_def Let_def)
  from stored_tiles_never_flipped [OF reach] reach stored show ?thesis by simp
qed

section \<open>The draw pass\<close>

lemma forEachVisibleTile_append:
  "forEachVisibleTile env (xs @ ys) c = forEachVisibleTile env ys (forEachVisibleTile env xs c)"
proof (induction xs arbitrary: c)
  case Nil
  show ?case by simp
next
  case (Cons entry xs)
  obtain tile index where "entry = (tile, index)" by (cases entry)
  with Cons.IH show ?case by simp
qed

lemma passState_Suc:
  assumes "k < length (visibleTiles env)" and "visibleTiles env ! k = (tile, index)"
  shows "passState env c (Suc k) = draw_callback env tile index (passState env c k)"
  using assms
  by (simp add: passState_def take_Suc_conv_app_nth forEachVisibleTile_append)

lemma draw_pass:
  "\<not> hasRenderedFrame env \<Longrightarrow>
   draw env c = forEachDrawingContext Restore (passState env c (length (visibleTiles env)))"
  by (simp add: draw_def passState_def forEachDrawingContext_def drawingContexts_def
      frameStart_def Let_def)

lemma drawTile_appends:
  "\<exists>new. calls (drawTile env context tileId index flips c) = calls c @ new"
  by (auto simp: drawTile_def drawImage_calls Let_def split: option.splits)

lemma drawAnimatedTile_appends:
  "\<exists>new. calls (drawAnimatedTile env tile index flips c) = calls c @ new"
proof -
  define key where "key = (if map_dynamicAnimatedTiles env index
      then TileIndexKey (propertyKey tile) (int index) else TileKey (propertyKey tile))"
  define c1 where "c1 = (if animatedTiles c key = None
      then addAnimatedTile env tile (if map_dynamicAnimatedTiles env index then int index else - 1) c
      else c)"
  have c1: "calls c1 = calls c"
    by (simp add: c1_def addAnimatedTile_def resetAnimatedTiles_def)
  have run: "drawAnimatedTile env tile index flips c =
      (if \<not> animateTiles env then c
       else case animatedTiles c1 key of
          None \<Rightarrow> c1
        | Some animatedTile \<Rightarrow>
            (let c2 = c1\<lparr>animatedTiles :=
                          (animatedTiles c1)(key \<mapsto> animatedTile\<lparr>lastAccessed := game_time env\<rparr>)\<rparr>
             in if length flips = 0 \<and> isFlipped animatedTile then c2
                else drawTile env (if isHighTile animatedTile then foreContext else backContext)
                       (plusOne (tid animatedTile)) index flips c2))"
    unfolding c1_def key_def by (simp add: drawAnimatedTile_def Let_def)
  show ?thesis
  proof (cases "animatedTiles c1 key")
    case None
    with c1 show ?thesis by (simp add: run)
  next
    case (Some animatedTile)
    let ?c2 = "c1\<lparr>animatedTiles :=
                  (animatedTiles c1)(key \<mapsto> animatedTile\<lparr>lastAccessed := game_time env\<rparr>)\<rparr>"
    from drawTile_appends [of env "if isHighTile animatedTile then foreContext else backContext"
        "plusOne (tid animatedTile)" index flips ?c2]
    obtain new where "calls (drawTile env
        (if isHighTile animatedTile then foreContext else backContext)
        (plusOne (tid animatedTile)) index flips ?c2) = calls c @ new"
      using c1 by auto
    with Some c1 show ?thesis by (auto simp: run Let_def)
  qed
qed

lemma draw_callback_appends:
  "\<exists>new. calls (draw_callback env tile index c) = calls c @ new"
  by (simp add: draw_callback_def Let_def drawTile_appends drawAnimatedTile_appends)

lemma forEachVisibleTile_appends:
  "\<exists>new. calls (forEachVisibleTile env visible c) = calls c @ new"
proof (induction visible arbitrary: c)
  case Nil
  show ?case by simp
next
  case (Cons entry visible)
  obtain tile index where entry: "entry = (tile, index)" by (cases entry)
  from draw_callback_appends obtain new1
    where "calls (draw_callback env tile index c) = calls c @ new1" by blast
  moreover from Cons.IH obtain new2
    where "calls (forEachVisibleTile env visible (draw_callback env tile index c))
             = calls (draw_callback env tile index c) @ new2" by blast
  ultimately show ?case using entry by simp
qed

lemma draw_keeps_pass_calls:
  assumes pass: "\<not> hasRenderedFrame env" and k: "k \<le> length (visibleTiles env)"
  shows "\<exists>rest. calls (draw env c) = calls (passState env c k) @ rest"
proof -
  let ?start = "c\<lparr>calls := calls c @ frameStart env\<rparr>"
  have "visibleTiles env = take k (visibleTiles env) @ drop k (visibleTiles env)" by simp
  then have "passState env c (length (visibleTiles env))
      = forEachVisibleTile env (drop k (visibleTiles env)) (passState env c k)"
    by (metis forEachVisibleTile_append order_refl passState_def take_all)
  with forEachVisibleTile_appends [of env "drop k (visibleTiles env)" "passState env c k"]
  obtain new where "calls (passState env c (length (visibleTiles env)))
      = calls (passState env c k) @ new"
    by auto
  then show ?thesis
    by (simp add: draw_pass [OF pass] forEachDrawingContext_def)
qed

section \<open>Layer routing\<close>

text \<open>
  C2. In a draw pass (the frame is not cached), take any visible tile that does not go
  the animated path (it is not animated, or animation is off). The callback draws it with
  \<open>drawTile\<close> on one surface: the overlay when an overlay is active and the tile id is a
  light tile, whatever its layer; otherwise the foreground for a high tile and the
  background for any other. Every call that this adds to the log of the pass is on that
  surface, the blit is among them exactly once when the tile id is not negative and has a
  tileset (no call is added otherwise), and these calls stay in the log that \<open>draw\<close>
  leaves. \<open>draw\<close> ends with the state after the last visible tile, its surfaces restored.
\<close>

theorem draw_routes_layers:
  assumes pass: "\<not> hasRenderedFrame env"
    and visible: "k < length (visibleTiles env)" "visibleTiles env ! k = (tile, index)"
    and direct: "\<not> (animateTiles env \<and>
                    map_isAnimatedTile env (tileAsNumber tile (getFlipped env tile)))"
  shows
    "\<exists>context t flips new rest.
       flips = getFlipped env tile \<and> t = tileAsNumber tile flips \<and>
       context = (if overlays_hasOverlay env \<and> map_isLightTile env t then overlayContext
                  else if map_isHighTile env t then foreContext
                  else backContext) \<and>
       passState env c (Suc k) = drawTile env context t index flips (passState env c k) \<and>
       calls (passState env c (Suc k)) = calls (passState env c k) @ new \<and>
       (\<forall>call \<in> set new. fst call = context) \<and>
       length (blits new) = (if \<not> isNegative t \<and> map_getTilesetFromId env t \<noteq> None then 1 else 0) \<and>
       calls (draw env c) = calls (passState env c (Suc k)) @ rest \<and>
       draw env c = forEachDrawingContext Restore (passState env c (length (visibleTiles env)))"
proof -
  let ?flips = "getFlipped env tile"
  let ?t = "tileAsNumber tile ?flips"
  let ?surface = "if overlays_hasOverlay env \<and> map_isLightTile env ?t then overlayContext
                  else if map_isHighTile env ?t then foreContext
                  else backContext"
  let ?before = "passState env c k"
  have "draw_callback env tile index ?before = drawTile env ?surface ?t index ?flips ?before"
    using direct by (auto simp: draw_callback_def Let_def)
  with passState_Suc [OF visible]
  have step: "passState env c (Suc k) = drawTile env ?surface ?t index ?flips ?before"
    by simp
  from visible(1) have "Suc k \<le> length (visibleTiles env)" by simp
  from draw_keeps_pass_calls [OF pass this]
  obtain rest where rest: "calls (draw env c) = calls (passState env c (Suc k)) @ rest"
    by blast
  note whole = draw_pass [OF pass, of c]
  have "\<exists>new. calls (drawTile env ?surface ?t index ?flips ?before) = calls ?before @ new \<and>
      (\<forall>call \<in> set new. fst call = ?surface) \<and>
      length (blits new) = (if \<not> isNegative ?t \<and> map_getTilesetFromId env ?t \<noteq> None then 1 else 0)"
  proof (cases "\<not> isNegative ?t \<and> map_getTilesetFromId env ?t \<noteq> None")
    case True
    then obtain tileset where tileset: "map_getTilesetFromId env ?t = Some tileset" by auto
    let ?new = "blitCalls ?surface tileset (tileUsed env tileset ?t ?before)
                  (cellUsed env index ?flips ?before) ?flips"
    from True tileset
    have "calls (drawTile env ?surface ?t index ?flips ?before) = calls ?before @ ?new"
      by (simp add: drawTile_drawn(1))
    moreover have "(\<forall>call \<in> set ?new. fst call = ?surface) \<and> length (blits ?new) = 1"
      by (rule blitCalls_shape)
    ultimately show ?thesis using True by auto
  next
    case False
    then have "drawTile env ?surface ?t index ?flips ?before = ?before"
      by (auto simp: drawTile_def)
    then have "calls (drawTile env ?surface ?t index ?flips ?before) = calls ?before @ []"
      by simp
    with False show ?thesis
      by (intro exI [of _ "[]"]) (simp add: blits_def)
  qed
  then obtain new where new:
    "calls (drawTile env ?surface ?t index ?flips ?before) = calls ?before @ new"
    "\<forall>call \<in> set new. fst call = ?surface"
    "length (blits new) = (if \<not> isNegative ?t \<and> map_getTilesetFromId env ?t \<noteq> None then 1 else 0)"
    by blast
  from step new rest whole show ?thesis
    by (intro exI [of _ ?surface] exI [of _ ?t] exI [of _ ?flips] exI [of _ new]
        exI [of _ rest]) simp
qed

theorem draw_routes_layers_witness:
  "(\<exists>new rest.
      passState example_plain_env initial (Suc 0)
        = drawTile example_plain_env foreContext (Num 7) 11 []
            (passState example_plain_env initial 0) \<and>
      calls (passState example_plain_env initial (Suc 0))
        = calls (passState example_plain_env initial 0) @ new \<and>
      length (blits new) = 1 \<and>
      calls (draw example_plain_env initial)
        = calls (passState example_plain_env initial (Suc 0)) @ rest) \<and>
   (\<exists>new rest.
      passState example_overlay_env initial (Suc 0)
        = drawTile example_overlay_env overlayContext (Num 7) 11 []
            (passState example_overlay_env initial 0) \<and>
      calls (passState example_overlay_env initial (Suc 0))
        = calls (passState example_overlay_env initial 0) @ new \<and>
      length (blits new) = 1 \<and>
      calls (draw example_overlay_env initial)
        = calls (passState example_overlay_env initial (Suc 0)) @ rest)"
proof -
  have flips: "getFlipped example_plain_env (Plain 7) = []"
    "getFlipped example_overlay_env (Plain 7) = []"
    by (simp_all add: getFlipped_def)
  have plain: "\<not> hasRenderedFrame example_plain_env"
    "0 < length (visibleTiles example_plain_env)"
    "visibleTiles example_plain_env ! 0 = (Plain 7, 11)"
    "\<not> (animateTiles example_plain_env \<and>
        map_isAnimatedTile example_plain_env
          (tileAsNumber (Plain 7) (getFlipped example_plain_env (Plain 7))))"
    by (simp_all add: example_plain_env_def example_env_def)
  have overlay: "\<not> hasRenderedFrame example_overlay_env"
    "0 < length (visibleTiles example_overlay_env)"
    "visibleTiles example_overlay_env ! 0 = (Plain 7, 11)"
    "\<not> (animateTiles example_overlay_env \<and>
        map_isAnimatedTile example_overlay_env
          (tileAsNumber (Plain 7) (getFlipped example_overlay_env (Plain 7))))"
    by (simp_all add: example_overlay_env_def example_plain_env_def example_env_def)
  have facts: "\<not> overlays_hasOverlay example_plain_env" "map_isHighTile example_plain_env (Num 7)"
    "map_getTilesetFromId example_plain_env (Num 7) \<noteq> None"
    "overlays_hasOverlay example_overlay_env" "map_isLightTile example_overlay_env (Num 7)"
    "map_getTilesetFromId example_overlay_env (Num 7) \<noteq> None"
    by (simp_all add: example_overlay_env_def example_plain_env_def example_env_def)
  from draw_routes_layers [OF plain, of "initial :: unit Canvas"] facts flips
  have one: "\<exists>new rest.
      passState example_plain_env initial (Suc 0)
        = drawTile example_plain_env foreContext (Num 7) 11 []
            (passState example_plain_env initial 0) \<and>
      calls (passState example_plain_env initial (Suc 0))
        = calls (passState example_plain_env initial 0) @ new \<and>
      length (blits new) = 1 \<and>
      calls (draw example_plain_env initial)
        = calls (passState example_plain_env initial (Suc 0)) @ rest"
    by auto
  from draw_routes_layers [OF overlay, of "initial :: unit Canvas"] facts flips
  have two: "\<exists>new rest.
      passState example_overlay_env initial (Suc 0)
        = drawTile example_overlay_env overlayContext (Num 7) 11 []
            (passState example_overlay_env initial 0) \<and>
      calls (passState example_overlay_env initial (Suc 0))
        = calls (passState example_overlay_env initial 0) @ new \<and>
      length (blits new) = 1 \<and>
      calls (draw example_overlay_env initial)
        = calls (passState example_overlay_env initial (Suc 0)) @ rest"
    by auto
  from one two show ?thesis by (rule conjI)
qed

section \<open>Cell geometry\<close>


lemma blits_frame: "blits (frameStart env) = []" "blits frameEnd = []"
  by (simp_all add: blits_def frameStart_def frameEnd_def)

lemma blits_append: "blits (xs @ ys) = blits xs @ blits ys"
  by (simp add: blits_def)





section \<open>One animated tile at two indices\<close>

lemma drawAnimatedTile_static:
  assumes animating: "animateTiles env" and static: "\<not> map_dynamicAnimatedTiles env index"
    and inv: "noneFlipped c"
    and id: "\<not> isNegative (plusOne (tid (tileFound env t c)))"
    and tileset: "map_getTilesetFromId env (plusOne (tid (tileFound env t c))) = Some tileset"
  shows "calls (drawAnimatedTile env t index flips c) =
           calls c @ blitCalls (if isHighTile (tileFound env t c) then foreContext else backContext)
                       tileset (tileUsed env tileset (plusOne (tid (tileFound env t c))) c)
                       (cellUsed env index flips c) flips"
    and "tid (tileFound env t (drawAnimatedTile env t index flips c)) = tid (tileFound env t c)"
    and "isHighTile (tileFound env t (drawAnimatedTile env t index flips c))
           = isHighTile (tileFound env t c)"
    and "tiles (drawAnimatedTile env t index flips c)
           (propertyKey (plusOne (tid (tileFound env t c))))
           = Some (tileUsed env tileset (plusOne (tid (tileFound env t c))) c)"
    and "cells (drawAnimatedTile env t index flips c) index = Some (cellUsed env index flips c)"
    and "\<forall>k. k \<noteq> index \<longrightarrow> cells (drawAnimatedTile env t index flips c) k = cells c k"
proof -
  let ?key = "TileKey (propertyKey t)"
  define c1 where
    "c1 = (if animatedTiles c ?key = None then addAnimatedTile env t (- 1) c else c)"
  obtain a where a: "animatedTiles c1 ?key = Some a"
    and same: "tid a = tid (tileFound env t c)" "isHighTile a = isHighTile (tileFound env t c)"
    by (cases "animatedTiles c ?key")
      (auto simp: c1_def addAnimatedTile_def resetAnimatedTiles_def tileFound_def new_Tile_def)
  have frame1: "tiles c1 = tiles c" "cells c1 = cells c" "calls c1 = calls c"
    by (simp_all add: c1_def addAnimatedTile_def resetAnimatedTiles_def)
  from inv have "noneFlipped c1" by (simp add: c1_def noneFlipped_addAnimatedTile)
  with a have unflipped: "\<not> isFlipped a" by (auto simp: noneFlipped_def)
  let ?c2 = "c1\<lparr>animatedTiles :=
                (animatedTiles c1)(?key \<mapsto> a\<lparr>lastAccessed := game_time env\<rparr>)\<rparr>"
  let ?ctx = "if isHighTile a then foreContext else backContext"
  let ?frame = "plusOne (tid a)"
  from animating static
  have "drawAnimatedTile env t index flips c =
          (case animatedTiles c1 ?key of
             None \<Rightarrow> c1
           | Some animatedTile \<Rightarrow>
               (let c2 = c1\<lparr>animatedTiles :=
                             (animatedTiles c1)(?key \<mapsto>
                                animatedTile\<lparr>lastAccessed := game_time env\<rparr>)\<rparr>
                in if length flips = 0 \<and> isFlipped animatedTile then c2
                   else drawTile env
                          (if isHighTile animatedTile then foreContext else backContext)
                          (plusOne (tid animatedTile)) index flips c2))"
    unfolding c1_def by (simp add: drawAnimatedTile_def Let_def)
  with a unflipped
  have run: "drawAnimatedTile env t index flips c = drawTile env ?ctx ?frame index flips ?c2"
    by (simp add: Let_def)
  have used: "tileUsed env tileset ?frame ?c2 = tileUsed env tileset ?frame c"
    "cellUsed env index flips ?c2 = cellUsed env index flips c"
    using frame1 by (simp_all add: tileUsed_def cellUsed_def)
  from id tileset same have id': "\<not> isNegative ?frame"
    and tileset': "map_getTilesetFromId env ?frame = Some tileset"
    by simp_all
  note drawn = drawTile_drawn [OF id' tileset', of ?ctx index flips ?c2]
  show "calls (drawAnimatedTile env t index flips c) =
           calls c @ blitCalls (if isHighTile (tileFound env t c) then foreContext else backContext)
                       tileset (tileUsed env tileset (plusOne (tid (tileFound env t c))) c)
                       (cellUsed env index flips c) flips"
    using drawn(1) used frame1 same by (simp add: run)
  have found: "tileFound env t (drawAnimatedTile env t index flips c)
                 = a\<lparr>lastAccessed := game_time env\<rparr>"
    by (simp add: run tileFound_def)
  show "tid (tileFound env t (drawAnimatedTile env t index flips c)) = tid (tileFound env t c)"
    and "isHighTile (tileFound env t (drawAnimatedTile env t index flips c))
           = isHighTile (tileFound env t c)"
    using same by (simp_all add: found)
  show "tiles (drawAnimatedTile env t index flips c)
           (propertyKey (plusOne (tid (tileFound env t c))))
           = Some (tileUsed env tileset (plusOne (tid (tileFound env t c))) c)"
    using drawn(2) used same by (simp add: run)
  show "cells (drawAnimatedTile env t index flips c) index = Some (cellUsed env index flips c)"
    using drawn(3) used by (simp add: run)
  show "\<forall>k. k \<noteq> index \<longrightarrow> cells (drawAnimatedTile env t index flips c) k = cells c k"
    using id' tileset' frame1 by (simp add: run drawTile_cells)
qed

lemma visit_drawn_all:
  assumes animated: "map_isAnimatedTile env (Num t)"
    and static: "\<not> map_dynamicAnimatedTiles env index"
    and number: "tileAsNumber tile (getFlipped env tile) = Num t"
    and inv: "noneFlipped s"
    and id: "\<not> isNegative (frameDrawn env t s)"
    and tileset: "map_getTilesetFromId env (frameDrawn env t s) = Some tileset"
  shows "calls (draw_callback env tile index s) =
           calls s @ blitCalls (surfaceDrawn env t s) tileset
                       (tileUsed env tileset (frameDrawn env t s) s)
                       (cellUsed env index (getFlipped env tile) s) (getFlipped env tile)
       \<and> frameDrawn env t (draw_callback env tile index s) = frameDrawn env t s
       \<and> surfaceDrawn env t (draw_callback env tile index s) = surfaceDrawn env t s
       \<and> tiles (draw_callback env tile index s) (propertyKey (frameDrawn env t s))
           = Some (tileUsed env tileset (frameDrawn env t s) s)
       \<and> cells (draw_callback env tile index s) index
           = Some (cellUsed env index (getFlipped env tile) s)
       \<and> (\<forall>k. k \<noteq> index \<longrightarrow> cells (draw_callback env tile index s) k = cells s k)"
proof (cases "animateTiles env")
  case True
  let ?flips = "getFlipped env tile"
  from True animated number
  have run: "draw_callback env tile index s = drawAnimatedTile env (Num t) index ?flips s"
    by (simp add: draw_callback_def Let_def)
  from True id tileset
  have id': "\<not> isNegative (plusOne (tid (tileFound env (Num t) s)))"
    and tileset': "map_getTilesetFromId env (plusOne (tid (tileFound env (Num t) s)))
                     = Some tileset"
    by (simp_all add: frameDrawn_def)
  note drawn = drawAnimatedTile_static [OF True static inv id' tileset', of ?flips]
  from True drawn show ?thesis
    by (simp add: run frameDrawn_def surfaceDrawn_def)
next
  case False
  let ?flips = "getFlipped env tile"
  let ?surface = "if overlays_hasOverlay env \<and> map_isLightTile env (Num t) then overlayContext
                  else if map_isHighTile env (Num t) then foreContext
                  else backContext"
  from False number
  have run: "draw_callback env tile index s = drawTile env ?surface (Num t) index ?flips s"
    by (auto simp: draw_callback_def Let_def)
  from False id tileset
  have id': "\<not> isNegative (Num t)"
    and tileset': "map_getTilesetFromId env (Num t) = Some tileset"
    by (simp_all add: frameDrawn_def)
  note drawn = drawTile_drawn [OF id' tileset', of ?surface index ?flips s]
  have frame: "frameDrawn env t (drawTile env ?surface (Num t) index ?flips s) = Num t"
    "frameDrawn env t s = Num t"
    "surfaceDrawn env t (drawTile env ?surface (Num t) index ?flips s) = ?surface"
    "surfaceDrawn env t s = ?surface"
    using False by (simp_all add: frameDrawn_def surfaceDrawn_def)
  have others: "\<forall>k. k \<noteq> index \<longrightarrow>
                  cells (drawTile env ?surface (Num t) index ?flips s) k = cells s k"
    using id' tileset' by (simp add: drawTile_cells)
  show ?thesis
    unfolding run frame using drawn others by simp
qed

lemma visit_drawn:
  assumes "map_isAnimatedTile env (Num t)"
    and "\<not> map_dynamicAnimatedTiles env index"
    and "tileAsNumber tile (getFlipped env tile) = Num t"
    and "noneFlipped s"
    and "\<not> isNegative (frameDrawn env t s)"
    and "map_getTilesetFromId env (frameDrawn env t s) = Some tileset"
  shows "calls (draw_callback env tile index s) =
           calls s @ blitCalls (surfaceDrawn env t s) tileset
                       (tileUsed env tileset (frameDrawn env t s) s)
                       (cellUsed env index (getFlipped env tile) s) (getFlipped env tile)"
    and "noneFlipped (draw_callback env tile index s)"
    and "frameDrawn env t (draw_callback env tile index s) = frameDrawn env t s"
    and "surfaceDrawn env t (draw_callback env tile index s) = surfaceDrawn env t s"
    and "tiles (draw_callback env tile index s) (propertyKey (frameDrawn env t s))
           = Some (tileUsed env tileset (frameDrawn env t s) s)"
    and "cells (draw_callback env tile index s) index
           = Some (cellUsed env index (getFlipped env tile) s)"
    and "\<forall>k. k \<noteq> index \<longrightarrow> cells (draw_callback env tile index s) k = cells s k"
  using visit_drawn_all [OF assms] noneFlipped_callback [OF assms(4)] by blast+

lemma blitCalls_getFlipped:
  assumes flips: "flips = (if v then [Vertical] else []) @ (if d then [Diagonal] else [])
                           @ (if h then [Horizontal] else [])"
    and some: "flips \<noteq> []"
  shows "\<exists>dx dy. blitCalls ctx img tile cell flips =
     (ctx, Save)
       # map (Pair ctx)
           (concat (map (flipCalls cell)
              (flips @ (if d then [if h then Horizontal else Vertical] else []))))
       @ [(ctx, DrawImage img (tile_x tile) (tile_y tile) (tile_width tile) (tile_height tile)
                  dx dy (cell_width cell) (cell_height cell)),
          (ctx, Restore)]"
proof -
  obtain flips' dx' dy' cs' where run:
    "flip_loop ctx cell (cell_dx cell) 0 flips (cell_dx cell) (cell_dy cell)
       (calls (initial :: unit Canvas) @ [(ctx, Save)]) = (flips', dx', dy', cs')"
    by (rule prod_cases4)
  have final: "flips' = flips @ (if d then [if h then Horizontal else Vertical] else [])"
  proof (cases d)
    case True
    let ?pre = "if v then [Vertical] else []"
    let ?post = "if h then [Horizontal] else []"
    have "flips = ?pre @ Diagonal # ?post" "Diagonal \<notin> set ?pre" "Diagonal \<notin> set ?post"
      using True flips by simp_all
    from flip_loop_single [OF run this] True show ?thesis by simp
  next
    case False
    with flips have "count_list flips Diagonal = 0" by simp
    with flip_loop_append [OF run] False show ?thesis by auto
  qed
  from flip_loop_calls [OF run]
  have cs': "cs' = (ctx, Save) # map (Pair ctx) (concat (map (flipCalls cell) flips'))"
    by (simp add: initial_def)
  from some run have "blitCalls ctx img tile cell flips =
      cs' @ [(ctx, DrawImage img (tile_x tile) (tile_y tile) (tile_width tile)
                (tile_height tile) (js_or dx' (cell_dx cell)) (js_or dy' (cell_dy cell))
                (cell_width cell) (cell_height cell)),
             (ctx, Restore)]"
    by (simp add: blitCalls_def drawImage_def)
  with cs' final show ?thesis by auto
qed

lemma two_visits:
  assumes animated: "map_isAnimatedTile env (Num t)"
    and static: "\<not> map_dynamicAnimatedTiles env i1" "\<not> map_dynamicAnimatedTiles env i2"
    and distinct: "i1 \<noteq> i2"
    and numbers: "tileAsNumber tile1 (getFlipped env tile1) = Num t"
      "tileAsNumber tile2 (getFlipped env tile2) = Num t"
    and inv: "noneFlipped s"
    and id: "\<not> isNegative (frameDrawn env t s)"
    and tileset: "map_getTilesetFromId env (frameDrawn env t s) = Some tileset"
  shows "calls (draw_callback env tile2 i2 (draw_callback env tile1 i1 s)) =
           calls s
           @ blitCalls (surfaceDrawn env t s) tileset (tileUsed env tileset (frameDrawn env t s) s)
               (cellUsed env i1 (getFlipped env tile1) s) (getFlipped env tile1)
           @ blitCalls (surfaceDrawn env t s) tileset (tileUsed env tileset (frameDrawn env t s) s)
               (cellUsed env i2 (getFlipped env tile2) s) (getFlipped env tile2)"
proof -
  let ?s1 = "draw_callback env tile1 i1 s"
  note first = visit_drawn [OF animated static(1) numbers(1) inv id tileset]
  from first(3) id tileset
  have id1: "\<not> isNegative (frameDrawn env t ?s1)"
    and tileset1: "map_getTilesetFromId env (frameDrawn env t ?s1) = Some tileset"
    by simp_all
  note second = visit_drawn [OF animated static(2) numbers(2) first(2) id1 tileset1]
  from first(5) first(3)
  have tile: "tileUsed env tileset (frameDrawn env t ?s1) ?s1
                = tileUsed env tileset (frameDrawn env t s) s"
    by (simp add: tileUsed_def)
  from first(7) distinct have "cells ?s1 i2 = cells s i2" by simp
  then have cell: "cellUsed env i2 (getFlipped env tile2) ?s1
                     = cellUsed env i2 (getFlipped env tile2) s"
    by (simp add: cellUsed_def)
  from second(1) first(1) first(4) tile cell show ?thesis by simp
qed

text \<open>
  C5. A draw pass (the frame is not cached) over exactly two visible entries of one
  animated, not dynamically animated tile id \<open>t\<close>: a composite record that yields the flips
  \<open>flips\<close> at index \<open>i\<close>, and the plain id at index \<open>j\<close>, in either order. The state is one
  that the renderer can reach, and the tile id that reaches \<open>drawTile\<close> (the id of the
  stored animated tile plus one when animation is on, \<open>t\<close> itself otherwise) is not
  negative and has a tileset. Then the pass adds to the log its opening calls, the calls of
  the two draws in the order of the entries, and its closing calls; the two draws go to the
  same surface. The draw of index \<open>i\<close> is the \<open>drawImage\<close> of the flips at the freshly
  computed cell of \<open>i\<close>: a save, the context calls of every flip of the record in the order
  vertical, diagonal, horizontal, then those of the compensating flip if the record has a
  diagonal one, the blit, and a restore. The draw of index \<open>j\<close> is the bare blit at the
  cell of \<open>j\<close>, with no transform. The pass blits exactly twice: neither draw is
  suppressed.
\<close>

theorem animated_tile_drawn_at_both_indices:
  assumes pass: "\<not> hasRenderedFrame env"
    and animated: "map_isAnimatedTile env (Num t)"
    and static: "\<not> map_dynamicAnimatedTiles env i" "\<not> map_dynamicAnimatedTiles env j"
    and distinct: "i \<noteq> j"
    and flips: "getFlipped env (Transformed t h v d) = flips" "flips \<noteq> []"
    and visible: "visibleTiles env = [(Transformed t h v d, i), (Plain t, j)] \<or>
                  visibleTiles env = [(Plain t, j), (Transformed t h v d, i)]"
    and reach: "reachable c"
    and id: "\<not> isNegative (frameDrawn env t c)"
    and tileset: "map_getTilesetFromId env (frameDrawn env t c) = Some tileset"
  shows
    "\<exists>surface tile cell transforms dx dy flipped plain.
       surface = surfaceDrawn env t c \<and>
       tile = tileUsed env tileset (frameDrawn env t c) c \<and>
       flips = (if v then [Vertical] else []) @ (if d then [Diagonal] else [])
                 @ (if h then [Horizontal] else []) \<and>
       transforms = flips @ (if d then [if h then Horizontal else Vertical] else []) \<and>
       flipped = blitCalls surface tileset tile (cellGeometry env i) flips \<and>
       flipped = (surface, Save)
                   # map (Pair surface)
                       (concat (map (flipCalls (cellGeometry env i)) transforms))
                   @ [(surface, DrawImage tileset (tile_x tile) (tile_y tile) (tile_width tile)
                                  (tile_height tile) dx dy
                                  (cell_width (cellGeometry env i))
                                  (cell_height (cellGeometry env i))),
                      (surface, Restore)] \<and>
       cell = cellUsed env j [] c \<and>
       plain = [(surface, DrawImage tileset (tile_x tile) (tile_y tile) (tile_width tile)
                            (tile_height tile) (cell_dx cell) (cell_dy cell) (cell_width cell)
                            (cell_height cell))] \<and>
       calls (draw env c) =
         calls c @ frameStart env
           @ (if visibleTiles env = [(Transformed t h v d, i), (Plain t, j)]
              then flipped @ plain else plain @ flipped)
           @ frameEnd \<and>
       length (blits (calls (draw env c))) = length (blits (calls c)) + 2"
proof -
  let ?frame = "frameDrawn env t c"
  let ?surface = "surfaceDrawn env t c"
  let ?tile = "tileUsed env tileset ?frame c"
  let ?cell = "cellUsed env j [] c"
  let ?flipped = "blitCalls ?surface tileset ?tile (cellGeometry env i) flips"
  let ?plain = "blitCalls ?surface tileset ?tile ?cell []"
  let ?turned = "Transformed t h v d"
  from reach have inv: "noneFlipped c" by (rule reachable_noneFlipped)
  define c0 where "c0 = c\<lparr>calls := calls c @ frameStart env\<rparr>"
  have c0: "noneFlipped c0" "frameDrawn env t c0 = ?frame" "surfaceDrawn env t c0 = ?surface"
    "tileUsed env tileset ?frame c0 = ?tile"
    "\<And>k fs. cellUsed env k fs c0 = cellUsed env k fs c"
    "calls c0 = calls c @ frameStart env"
    using inv
    by (simp_all add: c0_def noneFlipped_def frameDrawn_def surfaceDrawn_def tileFound_def
        tileUsed_def cellUsed_def)
  from flips have shape: "flips = (if v then [Vertical] else []) @ (if d then [Diagonal] else [])
                                    @ (if h then [Horizontal] else [])"
    by (auto simp: getFlipped_def split: if_splits)
  have numbers: "tileAsNumber ?turned (getFlipped env ?turned) = Num t"
    "tileAsNumber (Plain t) (getFlipped env (Plain t)) = Num t"
    "getFlipped env (Plain t) = []"
    using flips by (simp_all add: getFlipped_def)
  have fresh: "\<And>s. cellUsed env i flips s = cellGeometry env i"
    using flips(2) by (simp add: cellUsed_def split: option.splits)
  from c0 id tileset
  have id0: "\<not> isNegative (frameDrawn env t c0)"
    and tileset0: "map_getTilesetFromId env (frameDrawn env t c0) = Some tileset"
    by simp_all
  have one: "length (blits ?flipped) = 1" "length (blits ?plain) = 1"
    using blitCalls_shape by blast+
  have ends: "\<And>s. calls (forEachDrawingContext Restore s) = calls s @ frameEnd"
    by (simp add: forEachDrawingContext_def drawingContexts_def frameEnd_def)
  have log: "calls (draw env c) =
               calls c @ frameStart env
                 @ (if visibleTiles env = [(?turned, i), (Plain t, j)]
                    then ?flipped @ ?plain else ?plain @ ?flipped)
                 @ frameEnd"
  proof (cases "visibleTiles env = [(?turned, i), (Plain t, j)]")
    case True
    then have "draw env c = forEachDrawingContext Restore
                 (draw_callback env (Plain t) j (draw_callback env ?turned i c0))"
      by (simp add: draw_pass [OF pass] passState_def c0_def)
    moreover note two_visits [OF animated static distinct numbers(1,2) c0(1) id0 tileset0]
    ultimately show ?thesis
      using True c0 numbers(3) flips(1) fresh by (simp add: ends)
  next
    case False
    with visible have order: "visibleTiles env = [(Plain t, j), (?turned, i)]" by simp
    then have "draw env c = forEachDrawingContext Restore
                 (draw_callback env ?turned i (draw_callback env (Plain t) j c0))"
      by (simp add: draw_pass [OF pass] passState_def c0_def)
    moreover from distinct have "j \<noteq> i" by simp
    note two_visits [OF animated static(2,1) this numbers(2,1) c0(1) id0 tileset0]
    ultimately show ?thesis
      using False c0 numbers(3) flips(1) fresh by (simp add: ends)
  qed
  from blitCalls_getFlipped [OF shape flips(2), of ?surface tileset ?tile "cellGeometry env i"]
  obtain dx dy where explicit:
    "?flipped = (?surface, Save)
                   # map (Pair ?surface)
                       (concat (map (flipCalls (cellGeometry env i))
                          (flips @ (if d then [if h then Horizontal else Vertical] else []))))
                   @ [(?surface, DrawImage tileset (tile_x ?tile) (tile_y ?tile)
                                  (tile_width ?tile) (tile_height ?tile) dx dy
                                  (cell_width (cellGeometry env i))
                                  (cell_height (cellGeometry env i))),
                      (?surface, Restore)]"
    by blast
  have count: "length (blits (calls (draw env c))) = length (blits (calls c)) + 2"
    using one by (simp add: log blits_append blits_frame)
  have plain: "?plain = [(?surface, DrawImage tileset (tile_x ?tile) (tile_y ?tile)
                            (tile_width ?tile) (tile_height ?tile) (cell_dx ?cell) (cell_dy ?cell)
                            (cell_width ?cell) (cell_height ?cell))]"
    by (rule blitCalls_plain)
  from log have log': "calls (draw env c) =
               calls c @ frameStart env
                 @ (if visibleTiles env = [(?turned, i), (Plain t, j)]
                    then ?flipped
                      @ [(?surface, DrawImage tileset (tile_x ?tile) (tile_y ?tile)
                            (tile_width ?tile) (tile_height ?tile) (cell_dx ?cell) (cell_dy ?cell)
                            (cell_width ?cell) (cell_height ?cell))]
                    else [(?surface, DrawImage tileset (tile_x ?tile) (tile_y ?tile)
                            (tile_width ?tile) (tile_height ?tile) (cell_dx ?cell) (cell_dy ?cell)
                            (cell_width ?cell) (cell_height ?cell))] @ ?flipped)
                 @ frameEnd"
    unfolding plain .
  from shape explicit log' count show ?thesis by blast
qed

theorem animated_tile_drawn_at_both_indices_witness:
  "reachable (initial :: unit Canvas) \<and>
   visibleTiles example_env = [(Transformed 9 True False False, 3), (Plain 9, 4)] \<and>
   getFlipped example_env (Transformed 9 True False False) = [Horizontal] \<and>
   frameDrawn example_env 9 (initial :: unit Canvas) = Num 10 \<and>
   (\<exists>dx dy. calls (draw example_env (initial :: unit Canvas)) =
      frameStart example_env
        @ [(backContext, Save), (backContext, Scale (- 1) 1),
           (backContext, DrawImage example_tileset (Some 144) (Some 0) 16 16 dx dy 48 48),
           (backContext, Restore),
           (backContext, DrawImage example_tileset (Some 144) (Some 0) 16 16 192 0 48 48)]
        @ frameEnd) \<and>
   length (blits (calls (draw example_env (initial :: unit Canvas)))) = 2"
proof -
  have reach: "reachable (initial :: unit Canvas)"
    by (rule reach_initial)
  have visible: "visibleTiles example_env = [(Transformed 9 True False False, 3), (Plain 9, 4)]"
    by (simp add: example_env_def)
  have flips: "getFlipped example_env (Transformed 9 True False False) = [Horizontal]"
    by (simp add: getFlipped_def example_env_def)
  have frame: "frameDrawn example_env 9 (initial :: unit Canvas) = Num 10"
    by (simp add: frameDrawn_def tileFound_def initial_def new_Tile_def example_env_def)
  have surface: "surfaceDrawn example_env 9 (initial :: unit Canvas) = backContext"
    by (simp add: surfaceDrawn_def tileFound_def initial_def new_Tile_def example_env_def)
  have env: "\<not> hasRenderedFrame example_env"
    "map_isAnimatedTile example_env (Num 9)" "\<not> map_dynamicAnimatedTiles example_env 3"
    "\<not> map_dynamicAnimatedTiles example_env 4" "(3 :: nat) \<noteq> 4" "[Horizontal] \<noteq> []"
    "\<not> isNegative (frameDrawn example_env 9 (initial :: unit Canvas))"
    "map_getTilesetFromId example_env (frameDrawn example_env 9 (initial :: unit Canvas))
       = Some example_tileset"
    by (simp_all add: frame) (simp_all add: example_env_def)
  have tile: "tileUsed example_env example_tileset (Num 10) (initial :: unit Canvas)
                = \<lparr>relativeTileId = Some 9, setWidth = 10, tile_x = Some 144, tile_y = Some 0,
                   tile_width = 16, tile_height = 16\<rparr>"
    by (simp add: tileUsed_def initial_def tileGeometry_def example_env_def example_tileset_def
        getX_def js_rem_def)
  have cells: "cellGeometry example_env 3
                 = \<lparr>cell_dx = 144, cell_dy = 0, cell_width = 48, cell_height = 48\<rparr>"
    "cellUsed example_env 4 [] (initial :: unit Canvas)
       = \<lparr>cell_dx = 192, cell_dy = 0, cell_width = 48, cell_height = 48\<rparr>"
    by (simp_all add: cellUsed_def initial_def cellGeometry_def example_env_def getX_def
        js_rem_def)
  have empty_log: "calls (initial :: unit Canvas) = []" "blits [] = []"
    by (simp_all add: initial_def blits_def)
  from animated_tile_drawn_at_both_indices [OF env(1-5) flips env(6) disjI1 [OF visible] reach
      env(7,8)]
  obtain dx dy flipped where
    flipped: "flipped = (backContext, Save)
                # map (Pair backContext)
                    (concat (map (flipCalls (cellGeometry example_env 3)) [Horizontal]))
                @ [(backContext, DrawImage example_tileset (Some 144) (Some 0) 16 16 dx dy 48 48),
                   (backContext, Restore)]"
    and log: "calls (draw example_env (initial :: unit Canvas)) =
                frameStart example_env
                  @ (flipped
                     @ [(backContext,
                         DrawImage example_tileset (Some 144) (Some 0) 16 16 192 0 48 48)])
                  @ frameEnd"
    and count: "length (blits (calls (draw example_env (initial :: unit Canvas)))) = 2"
    unfolding frame surface tile cells empty_log visible by auto
  from log have "calls (draw example_env (initial :: unit Canvas)) =
      frameStart example_env
        @ [(backContext, Save), (backContext, Scale (- 1) 1),
           (backContext, DrawImage example_tileset (Some 144) (Some 0) 16 16 dx dy 48 48),
           (backContext, Restore),
           (backContext, DrawImage example_tileset (Some 144) (Some 0) 16 16 192 0 48 48)]
        @ frameEnd"
    by (simp add: flipped)
  with reach visible flips frame count show ?thesis by blast
qed

text \<open>
  When the map resolves no tileset, the two visible entries of the animated tile 9, one
  flipped and one plain, reach \<open>drawTile\<close> and are both skipped there: the pass blits
  nothing.
\<close>

theorem animated_tile_without_tileset:
  "reachable (initial :: unit Canvas) \<and>
   \<not> hasRenderedFrame example_bare_env \<and>
   map_isAnimatedTile example_bare_env (Num 9) \<and>
   \<not> map_dynamicAnimatedTiles example_bare_env 3 \<and>
   \<not> map_dynamicAnimatedTiles example_bare_env 4 \<and>
   visibleTiles example_bare_env = [(Transformed 9 True False False, 3), (Plain 9, 4)] \<and>
   getFlipped example_bare_env (Transformed 9 True False False) = [Horizontal] \<and>
   getFlipped example_bare_env (Plain 9) = [] \<and>
   blits (calls (draw example_bare_env (initial :: unit Canvas))) = []"
proof -
  have reach: "reachable (initial :: unit Canvas)"
    by (rule reach_initial)
  have env: "\<not> hasRenderedFrame example_bare_env"
    "map_isAnimatedTile example_bare_env (Num 9)"
    "\<not> map_dynamicAnimatedTiles example_bare_env 3"
    "\<not> map_dynamicAnimatedTiles example_bare_env 4"
    "visibleTiles example_bare_env = [(Transformed 9 True False False, 3), (Plain 9, 4)]"
    "animateTiles example_bare_env"
    by (simp_all add: example_bare_env_def example_env_def)
  have flips: "getFlipped example_bare_env (Transformed 9 True False False) = [Horizontal]"
    "getFlipped example_bare_env (Plain 9) = []"
    by (simp_all add: getFlipped_def example_bare_env_def example_env_def)
  have skipped: "\<And>surface tileId index fs (s :: unit Canvas).
                   drawTile example_bare_env surface tileId index fs s = s"
    by (simp add: drawTile_def example_bare_env_def)
  have kept: "\<And>t index fs (s :: unit Canvas).
                calls (drawAnimatedTile example_bare_env t index fs s) = calls s"
    by (simp add: drawAnimatedTile_def Let_def skipped addAnimatedTile_def
        resetAnimatedTiles_def split: option.splits)
  have visit: "\<And>tile index (s :: unit Canvas).
                 calls (draw_callback example_bare_env tile index s) = calls s"
    by (simp add: draw_callback_def Let_def skipped kept)
  have "calls (draw example_bare_env (initial :: unit Canvas))
          = frameStart example_bare_env @ frameEnd"
    using env(5)
    by (simp add: draw_pass [OF env(1)] passState_def forEachDrawingContext_def
        drawingContexts_def frameEnd_def visit initial_def)
  then have "blits (calls (draw example_bare_env (initial :: unit Canvas))) = []"
    by (simp add: blits_append blits_frame)
  with reach env(1-5) flips show ?thesis by simp
qed

end
